theory Spec2Isabelle
  imports Complex_Main
begin

section \<open>Critical Path Method analysis (cpm.py)\<close>

text \<open>
  The script reads a semicolon-separated file with the columns Task, Duration and
  Predecessors into a pandas data frame and runs, in this order,
  \<open>load_and_prepare_data\<close>, \<open>calculate_es_ef\<close>, \<open>calculate_ls_lf\<close>,
  \<open>calculate_slack\<close> and \<open>print_critical_path\<close>.

  The model starts after \<open>pd.read_csv\<close>: an input row is the triple of the Task cell, the
  Duration cell and the Predecessors cell after \<open>fillna("")\<close> (so an empty cell is the
  empty string). The Duration cell is a number of the column's type: an integer
  (\<open>int\<close>; times that leave the 64-bit range of a pandas column are outside the model)
  or a binary64 floating-point number (\<open>float64\<close>). A data frame is the list of its
  rows in index order; the index labels are the positions \<open>0, 1, 2, ...\<close> that
  \<open>read_csv\<close> assigns. A run of a function
  is a value of type \<open>(error + 'a) option\<close>: \<open>None\<close> when the run does not return,
  \<open>Some (Inl e)\<close> when it raises \<open>e\<close>, \<open>Some (Inr v)\<close> when it returns \<open>v\<close>.

  The dictionary \<open>activities\<close> that the module builds after loading is never read, and
  \<open>export_cpm_to_csv\<close> only writes the finished table to a file; neither is modelled.
\<close>

subsection \<open>Data model\<close>

type_synonym 'n csv_row = "string \<times> 'n \<times> string"

record 'n activity =
  Task :: string
  Duration :: "'n"
  Predecessors :: "string list"
  ES :: "'n"
  EF :: "'n"
  LS :: "'n"
  LF :: "'n"
  Slack :: "'n"
  Critical :: bool
  Successors :: "string list"

type_synonym 'n frame = "'n activity list"

type_synonym 'n num_dict = "string \<rightharpoonup> 'n"

text \<open>
  The exceptions the two passes could raise: a subscript \<open>d[k]\<close> of a missing key, and
  \<open>max\<close> or \<open>min\<close> of an empty list.
\<close>

datatype error = KeyError string | ValueError

subsection \<open>The numeric type of a column\<close>

text \<open>
  The frame is generic in the type \<open>'n\<close> of the Duration column and of the computed
  columns. pandas reads a column of whole numbers as int64 and a column with a fractional
  value as float64; the script then adds, subtracts and compares in that type. The two
  instances are \<open>int\<close> and \<open>float64\<close> below.

  A \<open>float64\<close> is a finite IEEE 754 binary64 number, given by its exact value.
  Addition and subtraction compute the exact sum or difference and round it to the
  nearest binary64 number, ties to the even significand (53 bits; the smallest unit is
  \<open>2 ^ -1074\<close>). Comparison is comparison of the values. Infinities and NaN are outside
  the model.
\<close>

text \<open>The number of binary digits of a positive integer.\<close>

function bitlen :: "int \<Rightarrow> int" where
  "bitlen n = (if n \<le> 0 then 0 else 1 + bitlen (n div 2))"
  by pat_completeness auto
termination
  by (relation "measure nat") auto

declare bitlen.simps [simp del]

definition pow2 :: "int \<Rightarrow> rat" where
  "pow2 k = (if 0 \<le> k then 2 ^ nat k else 1 / 2 ^ nat (- k))"

text \<open>For \<open>x > 0\<close>, the exponent \<open>e\<close> with \<open>2 ^ e \<le> x < 2 ^ (e + 1)\<close>.\<close>

definition ilog2 :: "rat \<Rightarrow> int" where
  "ilog2 x =
     (let e0 = bitlen (fst (quotient_of x)) - bitlen (snd (quotient_of x))
      in if pow2 e0 \<le> x then e0 else e0 - 1)"

definition round_half_even :: "rat \<Rightarrow> int" where
  "round_half_even m =
     (let f = \<lfloor>m\<rfloor>; r = m - of_int f
      in if r < 1 / 2 then f else if 1 / 2 < r then f + 1 else if even f then f else f + 1)"

definition round64 :: "rat \<Rightarrow> rat" where
  "round64 x =
     (if x = 0 then 0
      else let a = \<bar>x\<bar>; q = max (ilog2 a - 52) (- 1074)
           in sgn x * of_int (round_half_even (a / pow2 q)) * pow2 q)"

datatype float64 = Float64 (val: rat)

instantiation float64 :: "{zero, plus, minus, linorder}"
begin

definition zero_float64 :: float64 where
  "zero_float64 = Float64 0"

definition plus_float64 :: "float64 \<Rightarrow> float64 \<Rightarrow> float64" where
  "plus_float64 x y = Float64 (round64 (val x + val y))"

definition minus_float64 :: "float64 \<Rightarrow> float64 \<Rightarrow> float64" where
  "minus_float64 x y = Float64 (round64 (val x - val y))"

definition less_eq_float64 :: "float64 \<Rightarrow> float64 \<Rightarrow> bool" where
  "less_eq_float64 x y \<longleftrightarrow> val x \<le> val y"

definition less_float64 :: "float64 \<Rightarrow> float64 \<Rightarrow> bool" where
  "less_float64 x y \<longleftrightarrow> val x < val y"

instance
  by standard (auto simp: less_eq_float64_def less_float64_def float64.expand)

end

text \<open>The binary64 number nearest to a decimal: what a cell such as \<open>0.1\<close> is read as.\<close>

definition f64 :: "rat \<Rightarrow> float64" where
  "f64 x = Float64 (round64 x)"

subsection \<open>load_and_prepare_data\<close>

text \<open>Python's \<open>x.split(",")\<close>.\<close>

fun split_comma :: "string \<Rightarrow> string list" where
  "split_comma [] = [[]]"
| "split_comma (c # cs) =
     (if c = CHR '','' then [] # split_comma cs
      else (case split_comma cs of [] \<Rightarrow> [[c]] | w # ws \<Rightarrow> (c # w) # ws))"

text \<open>\<open>lambda x: x.split(",") if x else []\<close>\<close>

definition parse_predecessors :: "string \<Rightarrow> string list" where
  "parse_predecessors x = (if x \<noteq> [] then split_comma x else [])"

text \<open>\<open>successors_map.setdefault(pred, []).append(task)\<close>\<close>

definition add_successor :: "string \<Rightarrow> string \<Rightarrow> (string \<rightharpoonup> string list) \<Rightarrow> (string \<rightharpoonup> string list)" where
  "add_successor task pred m = m(pred \<mapsto> (case m pred of None \<Rightarrow> [] | Some l \<Rightarrow> l) @ [task])"

text \<open>The two nested \<open>for\<close> loops that fill \<open>successors_map\<close>, rows in index order.\<close>

definition build_successors_map :: "'n frame \<Rightarrow> (string \<rightharpoonup> string list)" where
  "build_successors_map df =
     fold (\<lambda>row m. fold (add_successor (Task row)) (Predecessors row) m) df Map.empty"

text \<open>\<open>successors_map.get(t, [])\<close>\<close>

definition get_successors :: "(string \<rightharpoonup> string list) \<Rightarrow> string \<Rightarrow> string list" where
  "get_successors m t = (case m t of None \<Rightarrow> [] | Some l \<Rightarrow> l)"

definition init_row :: "'n::{zero,plus,minus,linorder} csv_row \<Rightarrow> 'n activity" where
  "init_row r =
     \<lparr>Task = fst r, Duration = fst (snd r), Predecessors = parse_predecessors (snd (snd r)),
      ES = 0, EF = 0, LS = 0, LF = 0, Slack = 0, Critical = False, Successors = []\<rparr>"

definition load_and_prepare_data :: "'n::{zero,plus,minus,linorder} csv_row list \<Rightarrow> 'n frame" where
  "load_and_prepare_data rows =
     (let df = map init_row rows;
          successors_map = build_successors_map df
      in map (\<lambda>row. row\<lparr>Successors := get_successors successors_map (Task row)\<rparr>) df)"

subsection \<open>calculate_es_ef\<close>

text \<open>\<open>[d[k] for k in ks]\<close>: the first missing key raises.\<close>

fun getitems :: "'n num_dict \<Rightarrow> string list \<Rightarrow> error + 'n list" where
  "getitems d [] = Inr []"
| "getitems d (k # ks) =
     (case d k of None \<Rightarrow> Inl (KeyError k)
      | Some v \<Rightarrow> (case getitems d ks of Inl e \<Rightarrow> Inl e | Inr vs \<Rightarrow> Inr (v # vs)))"

definition py_max :: "'n::{zero,plus,minus,linorder} list \<Rightarrow> error + 'n" where
  "py_max xs = (case xs of [] \<Rightarrow> Inl ValueError | x # ys \<Rightarrow> Inr (fold max ys x))"

definition py_min :: "'n::{zero,plus,minus,linorder} list \<Rightarrow> error + 'n" where
  "py_min xs = (case xs of [] \<Rightarrow> Inl ValueError | x # ys \<Rightarrow> Inr (fold min ys x))"

text \<open>\<open>all(p in d for p in names)\<close>\<close>

definition all_in :: "'n num_dict \<Rightarrow> string list \<Rightarrow> bool" where
  "all_in d names = list_all (\<lambda>p. d p \<noteq> None) names"

text \<open>
  \<open>max([ef_dict[p] for p in row["Predecessors"]]) if row["Predecessors"] else 0\<close>
\<close>

definition early_start :: "'n::{zero,plus,minus,linorder} num_dict \<Rightarrow> 'n activity \<Rightarrow> error + 'n" where
  "early_start ef_dict row =
     (if Predecessors row \<noteq> [] then
        (case getitems ef_dict (Predecessors row) of Inl e \<Rightarrow> Inl e | Inr vs \<Rightarrow> py_max vs)
      else Inr 0)"

text \<open>\<open>remaining.drop(i)\<close>: the rows whose index label is not \<open>i\<close>.\<close>

definition drop_label :: "nat \<Rightarrow> (nat \<times> 'n activity) list \<Rightarrow> (nat \<times> 'n activity) list" where
  "drop_label i remaining = filter (\<lambda>jr. fst jr \<noteq> i) remaining"

text \<open>
  The \<open>while not remaining.empty\<close> loop. One iteration of the \<open>while\<close> runs the \<open>for\<close> loop
  over \<open>remaining\<close> up to the first row whose predecessors all have an EF; that row is
  computed, dropped, and the \<open>for\<close> loop is left by \<open>break\<close>. When no row qualifies the
  \<open>for\<close> loop ends without a change and the \<open>while\<close> tests the same state again.
  A run that does not return is the value \<open>None\<close>.
\<close>

partial_function (option) es_ef_loop ::
  "(nat \<times> 'n::{zero,plus,minus,linorder} activity) list \<Rightarrow> 'n num_dict \<Rightarrow> 'n num_dict \<Rightarrow> (error + 'n num_dict \<times> 'n num_dict) option" where
  "es_ef_loop remaining es_dict ef_dict =
     (if remaining = [] then Some (Inr (es_dict, ef_dict))
      else (case find (\<lambda>ir. all_in ef_dict (Predecessors (snd ir))) remaining of
              None \<Rightarrow> es_ef_loop remaining es_dict ef_dict
            | Some ir \<Rightarrow>
                (case early_start ef_dict (snd ir) of
                   Inl e \<Rightarrow> Some (Inl e)
                 | Inr es \<Rightarrow>
                     es_ef_loop (drop_label (fst ir) remaining)
                       (es_dict(Task (snd ir) \<mapsto> es))
                       (ef_dict(Task (snd ir) \<mapsto> es + Duration (snd ir))))))"

declare es_ef_loop.simps [code]

text \<open>
  \<open>df["Task"].map(d)\<close> at one row. pandas writes NaN where the task is not a key of
  \<open>d\<close>. Each pass stores a value under the task of every row it drops and returns only
  when every row is dropped (lemmas \<open>es_ef_loop_keys\<close> and \<open>ls_lf_loop_keys\<close> below), so
  that case does not arise and the number written for it here is never read.
\<close>

definition map_col :: "'n::{zero,plus,minus,linorder} num_dict \<Rightarrow> 'n activity \<Rightarrow> 'n" where
  "map_col d row = (case d (Task row) of None \<Rightarrow> 0 | Some v \<Rightarrow> v)"

definition calculate_es_ef :: "'n::{zero,plus,minus,linorder} frame \<Rightarrow> (error + 'n frame) option" where
  "calculate_es_ef df =
     (case es_ef_loop (enumerate 0 df) Map.empty Map.empty of
        None \<Rightarrow> None
      | Some (Inl e) \<Rightarrow> Some (Inl e)
      | Some (Inr dicts) \<Rightarrow>
          Some (Inr (map (\<lambda>row. row\<lparr>ES := map_col (fst dicts) row,
                                     EF := map_col (snd dicts) row\<rparr>) df)))"

subsection \<open>calculate_ls_lf\<close>

text \<open>
  \<open>df["EF"].max()\<close>. On a frame without rows pandas gives NaN; no row exists then that
  could read it, and the model writes 0.
\<close>

definition col_max :: "'n::{zero,plus,minus,linorder} list \<Rightarrow> 'n" where
  "col_max xs = (case xs of [] \<Rightarrow> 0 | x # ys \<Rightarrow> fold max ys x)"

text \<open>The first \<open>for\<close> loop: \<open>lf_dict[row["Task"]] = project_finish\<close> for rows without successors.\<close>

definition seed_lf :: "'n frame \<Rightarrow> 'n \<Rightarrow> 'n num_dict" where
  "seed_lf df project_finish =
     fold (\<lambda>row lf_dict. if Successors row = [] then lf_dict(Task row \<mapsto> project_finish)
                          else lf_dict) df Map.empty"

text \<open>
  \<open>min([ls_dict[s] for s in row["Successors"]]) if row["Successors"] else project_finish\<close>
\<close>

definition late_finish :: "'n::{zero,plus,minus,linorder} num_dict \<Rightarrow> 'n \<Rightarrow> 'n activity \<Rightarrow> error + 'n" where
  "late_finish ls_dict project_finish row =
     (if Successors row \<noteq> [] then
        (case getitems ls_dict (Successors row) of Inl e \<Rightarrow> Inl e | Inr vs \<Rightarrow> py_min vs)
      else Inr project_finish)"

partial_function (option) ls_lf_loop ::
  "(nat \<times> 'n::{zero,plus,minus,linorder} activity) list \<Rightarrow> 'n \<Rightarrow> 'n num_dict \<Rightarrow> 'n num_dict \<Rightarrow> (error + 'n num_dict \<times> 'n num_dict) option" where
  "ls_lf_loop remaining project_finish ls_dict lf_dict =
     (if remaining = [] then Some (Inr (ls_dict, lf_dict))
      else (case find (\<lambda>ir. all_in ls_dict (Successors (snd ir))) remaining of
              None \<Rightarrow> ls_lf_loop remaining project_finish ls_dict lf_dict
            | Some ir \<Rightarrow>
                (case late_finish ls_dict project_finish (snd ir) of
                   Inl e \<Rightarrow> Some (Inl e)
                 | Inr lf \<Rightarrow>
                     ls_lf_loop (drop_label (fst ir) remaining) project_finish
                       (ls_dict(Task (snd ir) \<mapsto> lf - Duration (snd ir)))
                       (lf_dict(Task (snd ir) \<mapsto> lf)))))"

declare ls_lf_loop.simps [code]

definition calculate_ls_lf :: "'n::{zero,plus,minus,linorder} frame \<Rightarrow> (error + 'n frame) option" where
  "calculate_ls_lf df =
     (let project_finish = col_max (map EF df) in
      case ls_lf_loop (enumerate 0 df) project_finish Map.empty (seed_lf df project_finish) of
        None \<Rightarrow> None
      | Some (Inl e) \<Rightarrow> Some (Inl e)
      | Some (Inr dicts) \<Rightarrow>
          Some (Inr (map (\<lambda>row. row\<lparr>LF := map_col (snd dicts) row,
                                     LS := map_col (fst dicts) row\<rparr>) df)))"

subsection \<open>calculate_slack and print_critical_path\<close>

definition calculate_slack :: "'n::{zero,plus,minus,linorder} frame \<Rightarrow> 'n frame" where
  "calculate_slack df =
     map (\<lambda>row. row\<lparr>Slack := LS row - ES row, Critical := (LS row - ES row = 0)\<rparr>) df"

text \<open>\<open>df[df["Critical"]]["Task"].tolist()\<close>\<close>

definition critical_tasks :: "'n frame \<Rightarrow> string list" where
  "critical_tasks df = map Task (filter Critical df)"

text \<open>\<open>sep.join(xs)\<close>\<close>

fun join :: "string \<Rightarrow> string list \<Rightarrow> string" where
  "join sep [] = []"
| "join sep [x] = x"
| "join sep (x # y # ys) = x @ sep @ join sep (y # ys)"

definition print_critical_path :: "'n frame \<Rightarrow> string" where
  "print_critical_path df = join '' -> '' (critical_tasks df)"

subsection \<open>The analysis run\<close>

text \<open>
  The statements at the end of the module: the prepared frame goes through
  \<open>calculate_es_ef\<close>, \<open>calculate_ls_lf\<close> and \<open>calculate_slack\<close>.
\<close>

definition run_cpm :: "'n::{zero,plus,minus,linorder} csv_row list \<Rightarrow> (error + 'n frame) option" where
  "run_cpm rows =
     (case calculate_es_ef (load_and_prepare_data rows) of
        None \<Rightarrow> None
      | Some (Inl e) \<Rightarrow> Some (Inl e)
      | Some (Inr df1) \<Rightarrow>
          (case calculate_ls_lf df1 of
             None \<Rightarrow> None
           | Some (Inl e) \<Rightarrow> Some (Inl e)
           | Some (Inr df2) \<Rightarrow> Some (Inr (calculate_slack df2))))"

section \<open>Preconditions named by the claims\<close>

text \<open>
  The claims speak of valid acyclic activity sets: unique names, predecessors that
  resolve to activities, non-negative durations, and no cycle in the predecessor
  relation. These are predicates on the prepared frame; the script itself checks none
  of them. An edge \<open>(p, t)\<close> says that the row with task \<open>t\<close> lists \<open>p\<close> as a
  predecessor.
\<close>

definition pred_edges :: "'n frame \<Rightarrow> (string \<times> string) list" where
  "pred_edges df = concat (map (\<lambda>row. map (\<lambda>p. (p, Task row)) (Predecessors row)) df)"

definition unique_names :: "'n frame \<Rightarrow> bool" where
  "unique_names df \<longleftrightarrow> distinct (map Task df)"

definition resolvable :: "'n frame \<Rightarrow> bool" where
  "resolvable df \<longleftrightarrow>
     list_all (\<lambda>row. list_all (\<lambda>p. p \<in> set (map Task df)) (Predecessors row)) df"

definition acyclic_preds :: "'n frame \<Rightarrow> bool" where
  "acyclic_preds df \<longleftrightarrow> acyclic (set (pred_edges df))"

definition nonneg_durations :: "'n::{zero,plus,minus,linorder} frame \<Rightarrow> bool" where
  "nonneg_durations df \<longleftrightarrow> list_all (\<lambda>row. 0 \<le> Duration row) df"

definition valid_input :: "'n::{zero,plus,minus,linorder} csv_row list \<Rightarrow> bool" where
  "valid_input rows \<longleftrightarrow>
     unique_names (load_and_prepare_data rows) \<and>
     resolvable (load_and_prepare_data rows) \<and>
     nonneg_durations (load_and_prepare_data rows) \<and>
     acyclic_preds (load_and_prepare_data rows)"

text \<open>
  Three inputs used below: the scenario with parallel branches (C has slack), a chain
  of two activities with the fractional durations 0.1 and 0.2, and an input where two
  rows are named A.
\<close>

definition branches :: "int csv_row list" where
  "branches = [(''A'', 2 :: int, ''''), (''B'', 5, ''A''), (''C'', 1, ''A''), (''D'', 1, ''B,C'')]"

definition tenths :: "float64 csv_row list" where
  "tenths = [(''A'', f64 (1 / 10), ''''), (''B'', f64 (2 / 10), ''A'')]"

definition twice_a :: "int csv_row list" where
  "twice_a = [(''A'', 3 :: int, ''''), (''B'', 2, ''A''), (''A'', 4, ''''), (''C'', 1, ''A,B'')]"

section \<open>Notions used in the proofs\<close>

subsection \<open>The values a sweep computes\<close>

text \<open>
  When all predecessors of a row have an EF, \<open>early_start\<close> returns \<open>es_val\<close>; when all
  its successors have an LS, \<open>late_finish\<close> returns \<open>lf_val\<close> (lemmas
  \<open>early_start_ready\<close> and \<open>late_finish_ready\<close>).
\<close>

definition es_val :: "'n::{zero,plus,minus,linorder} num_dict \<Rightarrow> 'n activity \<Rightarrow> 'n" where
  "es_val ef_dict row =
     (if Predecessors row = [] then 0
      else Max ((\<lambda>p. the (ef_dict p)) ` set (Predecessors row)))"

definition lf_val :: "'n::{zero,plus,minus,linorder} num_dict \<Rightarrow> 'n \<Rightarrow> 'n activity \<Rightarrow> 'n" where
  "lf_val ls_dict project_finish row =
     (if Successors row = [] then project_finish
      else Min ((\<lambda>s. the (ls_dict s)) ` set (Successors row)))"

subsection \<open>The Successors column\<close>

text \<open>
  \<open>succ_list df t\<close> is what \<open>successors_map\<close> holds under \<open>t\<close> after the two nested
  loops; \<open>successors_ok\<close> says that the Successors column is the inverse of the
  predecessor relation.
\<close>

definition succ_list :: "'n frame \<Rightarrow> string \<Rightarrow> string list" where
  "succ_list df t =
     concat (map (\<lambda>row. map (\<lambda>_. Task row) (filter (\<lambda>p. p = t) (Predecessors row))) df)"

definition successors_ok :: "'n frame \<Rightarrow> bool" where
  "successors_ok df \<longleftrightarrow>
     (\<forall>row\<in>set df. set (Successors row) = {s. (Task row, s) \<in> set (pred_edges df)})"

subsection \<open>Loop invariants\<close>

text \<open>
  \<open>done_rows\<close> are the rows already dropped from \<open>remaining\<close>. The invariants say that
  every dropped row has its entries in the dictionaries and, when the names are unique,
  that these entries are the values computed from the entries of its predecessors
  (successors). \<open>cpm_table\<close> collects what then holds of the final table.
\<close>

definition done_rows :: "'n frame \<Rightarrow> (nat \<times> 'n activity) list \<Rightarrow> (nat \<times> 'n activity) set" where
  "done_rows df rem = set (enumerate 0 df) - set rem"

definition fwd_inv :: "'n::{zero,plus,minus,linorder} frame \<Rightarrow> (nat \<times> 'n activity) list \<Rightarrow> 'n num_dict \<Rightarrow> 'n num_dict \<Rightarrow> bool" where
  "fwd_inv df rem es ef \<longleftrightarrow>
     set rem \<subseteq> set (enumerate 0 df) \<and> distinct (map fst rem) \<and>
     (\<forall>ir\<in>done_rows df rem. ef (Task (snd ir)) \<noteq> None) \<and>
     (unique_names df \<longrightarrow>
        dom ef \<subseteq> (\<lambda>ir. Task (snd ir)) ` done_rows df rem \<and>
        (\<forall>ir\<in>done_rows df rem.
           all_in ef (Predecessors (snd ir)) \<and>
           es (Task (snd ir)) = Some (es_val ef (snd ir)) \<and>
           ef (Task (snd ir)) = Some (es_val ef (snd ir) + Duration (snd ir))))"

definition early_times :: "'n::{zero,plus,minus,linorder} frame \<Rightarrow> 'n num_dict \<Rightarrow> 'n num_dict \<Rightarrow> bool" where
  "early_times df es ef \<longleftrightarrow>
     (\<forall>row\<in>set df. all_in ef (Predecessors row) \<and>
        es (Task row) = Some (es_val ef row) \<and>
        ef (Task row) = Some (es_val ef row + Duration row))"

definition bwd_inv ::
  "'n::{zero,plus,minus,linorder} frame \<Rightarrow> 'n \<Rightarrow> (nat \<times> 'n activity) list \<Rightarrow> 'n num_dict \<Rightarrow> 'n num_dict \<Rightarrow> bool" where
  "bwd_inv df pf rem ls lf \<longleftrightarrow>
     set rem \<subseteq> set (enumerate 0 df) \<and> distinct (map fst rem) \<and>
     (\<forall>ir\<in>done_rows df rem. ls (Task (snd ir)) \<noteq> None) \<and>
     (unique_names df \<longrightarrow>
        dom ls \<subseteq> (\<lambda>ir. Task (snd ir)) ` done_rows df rem \<and>
        (\<forall>ir\<in>done_rows df rem.
           all_in ls (Successors (snd ir)) \<and>
           lf (Task (snd ir)) = Some (lf_val ls pf (snd ir)) \<and>
           ls (Task (snd ir)) = Some (lf_val ls pf (snd ir) - Duration (snd ir))))"

definition late_times :: "'n::{zero,plus,minus,linorder} frame \<Rightarrow> 'n \<Rightarrow> 'n num_dict \<Rightarrow> 'n num_dict \<Rightarrow> bool" where
  "late_times df pf ls lf \<longleftrightarrow>
     (\<forall>row\<in>set df. all_in ls (Successors row) \<and>
        lf (Task row) = Some (lf_val ls pf row) \<and>
        ls (Task row) = Some (lf_val ls pf row - Duration row))"

definition cpm_table :: "'n::{zero,plus,minus,linorder} frame \<Rightarrow> 'n num_dict \<Rightarrow> 'n num_dict \<Rightarrow> bool" where
  "cpm_table out ef ls \<longleftrightarrow>
     (\<forall>row\<in>set out.
        all_in ef (Predecessors row) \<and> all_in ls (Successors row) \<and>
        ef (Task row) = Some (EF row) \<and> ls (Task row) = Some (LS row) \<and>
        ES row = es_val ef row \<and> EF row = ES row + Duration row \<and>
        LF row = lf_val ls (col_max (map EF out)) row \<and> LS row = LF row - Duration row \<and>
        Slack row = LS row - ES row \<and> (Critical row \<longleftrightarrow> Slack row = 0))"

subsection \<open>Rows that never qualify\<close>

text \<open>
  A non-empty set \<open>S\<close> of remaining rows, each with a predecessor (successor) that has no
  entry yet and whose remaining rows are all in \<open>S\<close>: no row of \<open>S\<close> can ever be dropped.
\<close>

definition stuck_rows :: "(nat \<times> 'n activity) set \<Rightarrow> (nat \<times> 'n activity) list \<Rightarrow> 'n num_dict \<Rightarrow> bool" where
  "stuck_rows S rem ef \<longleftrightarrow>
     S \<noteq> {} \<and> S \<subseteq> set rem \<and> distinct (map fst rem) \<and>
     (\<forall>ir\<in>S. \<exists>p\<in>set (Predecessors (snd ir)).
        ef p = None \<and> (\<forall>jr\<in>set rem. Task (snd jr) = p \<longrightarrow> jr \<in> S))"

definition stuck_succ :: "(nat \<times> 'n activity) set \<Rightarrow> (nat \<times> 'n activity) list \<Rightarrow> 'n num_dict \<Rightarrow> bool" where
  "stuck_succ S rem ls \<longleftrightarrow>
     S \<noteq> {} \<and> S \<subseteq> set rem \<and> distinct (map fst rem) \<and>
     (\<forall>ir\<in>S. \<exists>s\<in>set (Successors (snd ir)).
        ls s = None \<and> (\<forall>jr\<in>set rem. Task (snd jr) = s \<longrightarrow> jr \<in> S))"

subsection \<open>Keys of the returned dictionaries\<close>

definition keys_post ::
  "(nat \<times> 'n activity) list \<Rightarrow> 'n num_dict \<Rightarrow> 'n num_dict \<Rightarrow> error + 'n num_dict \<times> 'n num_dict \<Rightarrow> bool" where
  "keys_post rem a b y \<longleftrightarrow>
     (distinct (map fst rem) \<longrightarrow>
       (\<forall>a' b'. y = Inr (a', b') \<longrightarrow>
         (\<forall>ir\<in>set rem. a' (Task (snd ir)) \<noteq> None \<and> b' (Task (snd ir)) \<noteq> None) \<and>
         dom a \<subseteq> dom a' \<and> dom b \<subseteq> dom b'))"

section \<open>Properties\<close>

subsection \<open>Rounding to binary64 on known cases\<close>

text \<open>
  The decimal 0.1 is read as \<open>3602879701896397 / 2 ^ 55\<close>; 0.1 + 0.2 is the number
  printed as 0.30000000000000004; a sum halfway between two neighbours goes to the one
  with the even significand; and a binary64 number is its own rounding.
\<close>

lemma round64_examples:
  "f64 (1 / 10) = Float64 (3602879701896397 / 36028797018963968)"
  "f64 (1 / 10) + f64 (2 / 10) = Float64 (1351079888211149 / 4503599627370496)"
  "Float64 1 + Float64 (1 / 9007199254740992) = Float64 1"
  "Float64 1 + Float64 (3 / 9007199254740992) = Float64 (2251799813685249 / 2251799813685248)"
  "round64 (3602879701896397 / 36028797018963968) = 3602879701896397 / 36028797018963968"
  "Float64 (1 / 2) - Float64 (3602879701896397 / 9007199254740992) =
     Float64 (900719925474099 / 9007199254740992)"
  by code_simp+

subsection \<open>Reading dictionaries and dropping rows\<close>

lemma find_SomeD: "find P xs = Some x \<Longrightarrow> x \<in> set xs \<and> P x"
  by (induction xs) (auto split: if_splits)

lemma find_ex_Some: "x \<in> set xs \<Longrightarrow> P x \<Longrightarrow> \<exists>y. find P xs = Some y"
  by (cases "find P xs") (auto simp: find_None_iff)

lemma getitems_all_in:
  "all_in d ks \<Longrightarrow> getitems d ks = Inr (map (\<lambda>k. the (d k)) ks)"
  by (induction ks) (auto simp: all_in_def)

lemma py_max_Max: "xs \<noteq> [] \<Longrightarrow> py_max xs = Inr (Max (set xs))"
  using Max.set_eq_fold[of "hd xs" "tl xs"] by (cases xs) (simp_all add: py_max_def)

lemma py_min_Min: "xs \<noteq> [] \<Longrightarrow> py_min xs = Inr (Min (set xs))"
  using Min.set_eq_fold[of "hd xs" "tl xs"] by (cases xs) (simp_all add: py_min_def)

lemma early_start_ready:
  "all_in ef_dict (Predecessors row) \<Longrightarrow> early_start ef_dict row = Inr (es_val ef_dict row)"
  by (simp add: early_start_def es_val_def getitems_all_in py_max_Max)

lemma length_drop_label: "ir \<in> set rem \<Longrightarrow> length (drop_label (fst ir) rem) < length rem"
  unfolding drop_label_def
  by (metis (mono_tags, lifting) length_filter_less)

lemma set_drop_label:
  "distinct (map fst rem) \<Longrightarrow> ir \<in> set rem \<Longrightarrow> set (drop_label (fst ir) rem) = set rem - {ir}"
  unfolding drop_label_def
  by (auto simp: distinct_map inj_on_def)

lemma distinct_drop_label: "distinct (map fst rem) \<Longrightarrow> distinct (map fst (drop_label i rem))"
  unfolding drop_label_def by (simp add: distinct_map_filter)

subsection \<open>A rule for the forward loop\<close>

lemma es_ef_loop_rule:
  assumes inv: "I remaining es ef"
    and progress: "\<And>rem es ef. I rem es ef \<Longrightarrow> rem \<noteq> [] \<Longrightarrow>
           \<exists>ir\<in>set rem. all_in ef (Predecessors (snd ir))"
    and pres: "\<And>rem es ef ir. I rem es ef \<Longrightarrow> ir \<in> set rem \<Longrightarrow>
           all_in ef (Predecessors (snd ir)) \<Longrightarrow>
           I (drop_label (fst ir) rem) (es(Task (snd ir) \<mapsto> es_val ef (snd ir)))
             (ef(Task (snd ir) \<mapsto> es_val ef (snd ir) + Duration (snd ir)))"
  shows "\<exists>es' ef'. es_ef_loop remaining es ef = Some (Inr (es', ef')) \<and> I [] es' ef'"
  using inv
proof (induction "length remaining" arbitrary: remaining es ef rule: less_induct)
  case less
  show ?case
  proof (cases "remaining = []")
    case True
    with less.prems show ?thesis by (simp add: es_ef_loop.simps)
  next
    case False
    from progress[OF less.prems False] obtain jr where
      jr: "jr \<in> set remaining" "all_in ef (Predecessors (snd jr))" by blast
    then obtain ir where f: "find (\<lambda>ir. all_in ef (Predecessors (snd ir))) remaining = Some ir"
      using find_ex_Some[of jr remaining "\<lambda>ir. all_in ef (Predecessors (snd ir))"] by blast
    from find_SomeD[OF f] have ir: "ir \<in> set remaining" "all_in ef (Predecessors (snd ir))"
      by simp_all
    have I': "I (drop_label (fst ir) remaining) (es(Task (snd ir) \<mapsto> es_val ef (snd ir)))
             (ef(Task (snd ir) \<mapsto> es_val ef (snd ir) + Duration (snd ir)))"
      by (rule pres[OF less.prems ir])
    from less.hyps[OF length_drop_label[OF ir(1)] I']
    obtain es' ef' where
      "es_ef_loop (drop_label (fst ir) remaining) (es(Task (snd ir) \<mapsto> es_val ef (snd ir)))
             (ef(Task (snd ir) \<mapsto> es_val ef (snd ir) + Duration (snd ir))) = Some (Inr (es', ef'))"
      "I [] es' ef'" by blast
    then show ?thesis
      using False f early_start_ready[OF ir(2)]
      by (subst es_ef_loop.simps) simp
  qed
qed

subsection \<open>The forward loop with rows that never qualify\<close>

lemma stuck_rows_not_ready:
  "stuck_rows S rem ef \<Longrightarrow> ir \<in> S \<Longrightarrow> \<not> all_in ef (Predecessors (snd ir))"
  unfolding stuck_rows_def all_in_def list_all_iff by blast

lemma stuck_rows_step:
  assumes st: "stuck_rows S rem ef" and ir: "ir \<in> set rem"
    and rdy: "all_in ef (Predecessors (snd ir))"
  shows "stuck_rows S (drop_label (fst ir) rem) (ef(Task (snd ir) \<mapsto> v))"
proof -
  from st have d: "distinct (map fst rem)" by (simp add: stuck_rows_def)
  have notin: "ir \<notin> S" using stuck_rows_not_ready[OF st] rdy by blast
  have s: "set (drop_label (fst ir) rem) = set rem - {ir}" by (rule set_drop_label[OF d ir])
  show ?thesis
    unfolding stuck_rows_def s
  proof (intro conjI ballI)
    show "S \<noteq> {}" using st by (simp add: stuck_rows_def)
    show "S \<subseteq> set rem - {ir}" using st notin by (auto simp: stuck_rows_def)
    show "distinct (map fst (drop_label (fst ir) rem))" by (rule distinct_drop_label[OF d])
  next
    fix jr assume jr: "jr \<in> S"
    with st obtain p where p: "p \<in> set (Predecessors (snd jr))" "ef p = None"
      "\<forall>kr\<in>set rem. Task (snd kr) = p \<longrightarrow> kr \<in> S"
      unfolding stuck_rows_def by blast
    from p(3) ir notin have "Task (snd ir) \<noteq> p" by blast
    with p show "\<exists>p\<in>set (Predecessors (snd jr)).
        (ef(Task (snd ir) \<mapsto> v)) p = None \<and> (\<forall>kr\<in>set rem - {ir}. Task (snd kr) = p \<longrightarrow> kr \<in> S)"
      by (intro bexI[of _ p]) auto
  qed
qed

lemma es_ef_loop_Some_not_stuck:
  assumes "es_ef_loop rem0 es0 ef0 = Some y0"
  shows "\<not> stuck_rows S rem0 ef0"
proof (rule es_ef_loop.raw_induct[where P = "\<lambda>rem es ef y. \<not> stuck_rows S rem ef", OF _ assms],
    goal_cases)
  case (1 loop rem es ef y)
  note IH = 1(1) and body = 1(2)
  show ?case
  proof
    assume st: "stuck_rows S rem ef"
    then have ne: "rem \<noteq> []" by (auto simp: stuck_rows_def)
    show False
    proof (cases "find (\<lambda>ir. all_in ef (Predecessors (snd ir))) rem")
      case None
      with body ne have "loop rem es ef = Some y" by simp
      from IH[OF this] st show False by blast
    next
      case (Some ir)
      from find_SomeD[OF Some] have ir: "ir \<in> set rem" "all_in ef (Predecessors (snd ir))"
        by simp_all
      from body ne Some early_start_ready[OF ir(2)]
      have "loop (drop_label (fst ir) rem) (es(Task (snd ir) \<mapsto> es_val ef (snd ir)))
              (ef(Task (snd ir) \<mapsto> es_val ef (snd ir) + Duration (snd ir))) = Some y"
        by simp
      from IH[OF this] stuck_rows_step[OF st ir] show False by blast
    qed
  qed
qed

lemma es_ef_loop_stuck: "stuck_rows S rem ef \<Longrightarrow> es_ef_loop rem es ef = None"
  using es_ef_loop_Some_not_stuck by (cases "es_ef_loop rem es ef") blast+

subsection \<open>Every task is a key when the forward loop returns\<close>

lemma es_ef_loop_keys_aux:
  assumes "es_ef_loop rem0 es0 ef0 = Some y0"
  shows "keys_post rem0 es0 ef0 y0"
proof (rule es_ef_loop.raw_induct[where P = keys_post, OF _ assms], goal_cases)
  case (1 loop rem es ef y)
  note IH = 1(1) and body = 1(2)
  show ?case unfolding keys_post_def
  proof (intro impI allI)
    fix es' ef' assume d: "distinct (map fst rem)" and y: "y = Inr (es', ef')"
    show "(\<forall>ir\<in>set rem. es' (Task (snd ir)) \<noteq> None \<and> ef' (Task (snd ir)) \<noteq> None) \<and>
        dom es \<subseteq> dom es' \<and> dom ef \<subseteq> dom ef'"
    proof (cases "rem = []")
      case True
      with body y show ?thesis by simp
    next
      case False
      show ?thesis
      proof (cases "find (\<lambda>ir. all_in ef (Predecessors (snd ir))) rem")
        case None
        with body False have "loop rem es ef = Some y" by simp
        from IH[OF this] d y show ?thesis unfolding keys_post_def by blast
      next
        case (Some ir)
        from find_SomeD[OF Some] have ir: "ir \<in> set rem" "all_in ef (Predecessors (snd ir))"
          by simp_all
        let ?es = "es(Task (snd ir) \<mapsto> es_val ef (snd ir))"
        let ?ef = "ef(Task (snd ir) \<mapsto> es_val ef (snd ir) + Duration (snd ir))"
        from body False Some early_start_ready[OF ir(2)]
        have "loop (drop_label (fst ir) rem) ?es ?ef = Some y" by simp
        from IH[OF this] distinct_drop_label[OF d] y
        have a: "\<forall>jr\<in>set (drop_label (fst ir) rem). es' (Task (snd jr)) \<noteq> None \<and> ef' (Task (snd jr)) \<noteq> None"
          and b: "dom ?es \<subseteq> dom es'" "dom ?ef \<subseteq> dom ef'" unfolding keys_post_def by blast+
        from b have c: "es' (Task (snd ir)) \<noteq> None" "ef' (Task (snd ir)) \<noteq> None"
          "dom es \<subseteq> dom es'" "dom ef \<subseteq> dom ef'" by auto
        from a c show ?thesis unfolding set_drop_label[OF d ir(1)] by blast
      qed
    qed
  qed
qed

lemma es_ef_loop_keys:
  assumes "es_ef_loop (enumerate 0 df) es ef = Some (Inr (es', ef'))" and "row \<in> set df"
  shows "es' (Task row) \<noteq> None \<and> ef' (Task row) \<noteq> None"
proof -
  from assms(2) obtain i where "i < length df" "df ! i = row" by (auto simp: in_set_conv_nth)
  then have "(i, row) \<in> set (enumerate 0 df)" by (auto simp: in_set_enumerate_eq)
  moreover have "distinct (map fst (enumerate 0 df))" by simp
  ultimately show ?thesis using es_ef_loop_keys_aux[OF assms(1)] unfolding keys_post_def by fastforce
qed

subsection \<open>The forward pass on resolvable acyclic input\<close>

lemma pred_edges_iff:
  "(p, t) \<in> set (pred_edges df) \<longleftrightarrow> (\<exists>row\<in>set df. Task row = t \<and> p \<in> set (Predecessors row))"
  by (auto simp: pred_edges_def)

lemma enumerate_row: "ir \<in> set (enumerate 0 df) \<Longrightarrow> snd ir \<in> set df"
  using nth_mem[of "fst ir" df] by (auto simp: in_set_enumerate_eq)

lemma row_enumerate:
  assumes "row \<in> set df"
  shows "\<exists>i. (i, row) \<in> set (enumerate 0 df)"
proof -
  from assms obtain i where "i < length df" "df ! i = row" by (auto simp: in_set_conv_nth)
  then have "(i, row) \<in> set (enumerate 0 df)" by (simp add: in_set_enumerate_eq)
  then show ?thesis ..
qed

lemma enumerate_unique_name:
  assumes "unique_names df" "ir \<in> set (enumerate 0 df)" "jr \<in> set (enumerate 0 df)"
    "Task (snd ir) = Task (snd jr)"
  shows "ir = jr"
proof -
  from assms(2,3) have a: "fst ir < length df" "df ! fst ir = snd ir"
    "fst jr < length df" "df ! fst jr = snd jr"
    by (auto simp: in_set_enumerate_eq)
  from a assms(4) have eq: "map Task df ! fst ir = map Task df ! fst jr" by simp
  from assms(1) have d: "distinct (map Task df)" by (simp add: unique_names_def)
  have l: "fst ir < length (map Task df)" "fst jr < length (map Task df)"
    using a(1,3) by simp_all
  from nth_eq_iff_index_eq[OF d l] eq have "fst ir = fst jr" by blast
  with a(2,4) show ?thesis by (metis prod_eqI)
qed

lemma row_unique_name:
  assumes "unique_names df" "r \<in> set df" "r' \<in> set df" "Task r = Task r'"
  shows "r = r'"
proof -
  from row_enumerate[OF assms(2)] row_enumerate[OF assms(3)] obtain i j where
    "(i, r) \<in> set (enumerate 0 df)" "(j, r') \<in> set (enumerate 0 df)" by blast
  from enumerate_unique_name[OF assms(1) this] assms(4) show ?thesis by simp
qed

lemma done_rows_drop:
  "set rem \<subseteq> set (enumerate 0 df) \<Longrightarrow> distinct (map fst rem) \<Longrightarrow> ir \<in> set rem \<Longrightarrow>
   done_rows df (drop_label (fst ir) rem) = insert ir (done_rows df rem)"
  by (auto simp: done_rows_def set_drop_label)

lemma es_val_cong:
  "(\<And>p. p \<in> set (Predecessors row) \<Longrightarrow> ef' p = ef p) \<Longrightarrow> es_val ef' row = es_val ef row"
  unfolding es_val_def by (auto intro!: arg_cong[where f = Max] image_cong)

lemma all_in_upd: "all_in d ks \<Longrightarrow> all_in (d(k \<mapsto> v)) ks"
  by (auto simp: all_in_def list_all_iff)

lemma all_in_iff: "all_in d ks \<longleftrightarrow> set ks \<subseteq> dom d"
  by (auto simp: all_in_def list_all_iff)

lemma fwd_progress:
  assumes inv: "fwd_inv df rem es ef" and res: "resolvable df" and acy: "acyclic_preds df"
    and ne: "rem \<noteq> []"
  shows "\<exists>ir\<in>set rem. all_in ef (Predecessors (snd ir))"
proof -
  have "wf (set (pred_edges df))"
    using acy by (simp add: acyclic_preds_def finite_acyclic_wf)
  moreover from ne obtain kr where "kr \<in> set rem" by (cases rem) auto
  then have "Task (snd kr) \<in> (\<lambda>ir. Task (snd ir)) ` set rem" by blast
  ultimately obtain z where z: "z \<in> (\<lambda>ir. Task (snd ir)) ` set rem"
    and zmin: "\<And>y. (y, z) \<in> set (pred_edges df) \<Longrightarrow> y \<notin> (\<lambda>ir. Task (snd ir)) ` set rem"
    by (rule wfE_min) blast
  from z obtain ir where ir: "ir \<in> set rem" "z = Task (snd ir)" by blast
  from inv ir(1) have irdf: "snd ir \<in> set df"
    by (auto simp: fwd_inv_def dest: enumerate_row)
  have "ef p \<noteq> None" if p: "p \<in> set (Predecessors (snd ir))" for p
  proof -
    from p irdf ir(2) have "(p, z) \<in> set (pred_edges df)" by (auto simp: pred_edges_iff)
    from zmin[OF this] have notrem: "p \<notin> (\<lambda>ir. Task (snd ir)) ` set rem" .
    from res irdf p obtain row' where row': "row' \<in> set df" "Task row' = p"
      by (force simp: resolvable_def list_all_iff image_iff)
    from row_enumerate[OF row'(1)] obtain j where j: "(j, row') \<in> set (enumerate 0 df)" ..
    with notrem row'(2) have "(j, row') \<in> done_rows df rem"
      by (force simp: done_rows_def)
    with inv row'(2) show ?thesis by (force simp: fwd_inv_def)
  qed
  then have "all_in ef (Predecessors (snd ir))" by (simp add: all_in_def list_all_iff)
  with ir(1) show ?thesis ..
qed

lemma fwd_preserve:
  assumes inv: "fwd_inv df rem es ef" and ir: "ir \<in> set rem"
    and rdy: "all_in ef (Predecessors (snd ir))"
  shows "fwd_inv df (drop_label (fst ir) rem) (es(Task (snd ir) \<mapsto> es_val ef (snd ir)))
           (ef(Task (snd ir) \<mapsto> es_val ef (snd ir) + Duration (snd ir)))"
    (is "fwd_inv df ?rem ?es ?ef")
proof -
  from inv have sub: "set rem \<subseteq> set (enumerate 0 df)" and d: "distinct (map fst rem)"
    and g: "\<forall>jr\<in>done_rows df rem. ef (Task (snd jr)) \<noteq> None"
    by (simp_all add: fwd_inv_def)
  have dn: "done_rows df ?rem = insert ir (done_rows df rem)"
    by (rule done_rows_drop[OF sub d ir])
  have 1: "set ?rem \<subseteq> set (enumerate 0 df)"
    using sub by (auto simp: set_drop_label[OF d ir])
  have 2: "distinct (map fst ?rem)" by (rule distinct_drop_label[OF d])
  have 3: "\<forall>jr\<in>done_rows df ?rem. ?ef (Task (snd jr)) \<noteq> None"
    using g by (auto simp: dn)
  have 4: "dom ?ef \<subseteq> (\<lambda>ir. Task (snd ir)) ` done_rows df ?rem \<and>
        (\<forall>jr\<in>done_rows df ?rem.
           all_in ?ef (Predecessors (snd jr)) \<and>
           ?es (Task (snd jr)) = Some (es_val ?ef (snd jr)) \<and>
           ?ef (Task (snd jr)) = Some (es_val ?ef (snd jr) + Duration (snd jr)))"
    if u: "unique_names df"
  proof -
    from inv u have dom: "dom ef \<subseteq> (\<lambda>ir. Task (snd ir)) ` done_rows df rem"
      and eqs: "\<forall>jr\<in>done_rows df rem.
           all_in ef (Predecessors (snd jr)) \<and>
           es (Task (snd jr)) = Some (es_val ef (snd jr)) \<and>
           ef (Task (snd jr)) = Some (es_val ef (snd jr) + Duration (snd jr))"
      by (simp_all add: fwd_inv_def)
    have fresh: "Task (snd jr) \<noteq> Task (snd ir)" if "jr \<in> done_rows df rem" for jr
    proof
      assume "Task (snd jr) = Task (snd ir)"
      with enumerate_unique_name[OF u, of jr ir] that ir sub have "jr = ir"
        by (auto simp: done_rows_def)
      with that ir show False by (simp add: done_rows_def)
    qed
    then have nodom: "Task (snd ir) \<notin> dom ef" using dom by force
    have same: "es_val ?ef row = es_val ef row" if "all_in ef (Predecessors row)" for row
    proof (rule es_val_cong)
      fix p assume "p \<in> set (Predecessors row)"
      with that have "p \<in> dom ef" by (auto simp: all_in_iff)
      with nodom show "?ef p = ef p" by auto
    qed
    have a: "dom ?ef \<subseteq> (\<lambda>ir. Task (snd ir)) ` done_rows df ?rem"
      using dom by (auto simp: dn)
    have b: "all_in ?ef (Predecessors (snd jr)) \<and>
           ?es (Task (snd jr)) = Some (es_val ?ef (snd jr)) \<and>
           ?ef (Task (snd jr)) = Some (es_val ?ef (snd jr) + Duration (snd jr))"
      if jr: "jr \<in> done_rows df ?rem" for jr
    proof (cases "jr = ir")
      case True
      with rdy same[OF rdy] show ?thesis by (simp add: all_in_upd)
    next
      case False
      with jr dn have j: "jr \<in> done_rows df rem" by simp
      with eqs have e: "all_in ef (Predecessors (snd jr))"
        "es (Task (snd jr)) = Some (es_val ef (snd jr))"
        "ef (Task (snd jr)) = Some (es_val ef (snd jr) + Duration (snd jr))" by blast+
      with fresh[OF j] same[OF e(1)] show ?thesis by (simp add: all_in_upd)
    qed
    from a b show ?thesis by blast
  qed
  from 1 2 3 4 show ?thesis unfolding fwd_inv_def by blast
qed

lemma fwd_inv_init: "fwd_inv df (enumerate 0 df) Map.empty Map.empty"
  by (simp add: fwd_inv_def done_rows_def)

lemma es_ef_loop_returns:
  assumes res: "resolvable df" and acy: "acyclic_preds df"
  shows "\<exists>es ef. es_ef_loop (enumerate 0 df) Map.empty Map.empty = Some (Inr (es, ef)) \<and>
           (\<forall>row\<in>set df. ef (Task row) \<noteq> None) \<and>
           (unique_names df \<longrightarrow> early_times df es ef)"
proof -
  have "\<exists>es ef. es_ef_loop (enumerate 0 df) Map.empty Map.empty = Some (Inr (es, ef)) \<and>
          fwd_inv df [] es ef"
    by (rule es_ef_loop_rule[where I = "fwd_inv df", OF fwd_inv_init])
       (auto intro: fwd_progress[OF _ res acy] fwd_preserve)
  then obtain es ef where l: "es_ef_loop (enumerate 0 df) Map.empty Map.empty = Some (Inr (es, ef))"
    and inv: "fwd_inv df [] es ef" by blast
  have dn: "\<And>row. row \<in> set df \<Longrightarrow> \<exists>i. (i, row) \<in> done_rows df []"
    by (simp add: done_rows_def row_enumerate)
  have "\<forall>row\<in>set df. ef (Task row) \<noteq> None"
    using inv dn unfolding fwd_inv_def by fastforce
  moreover have "early_times df es ef" if "unique_names df"
    unfolding early_times_def
  proof
    fix row assume "row \<in> set df"
    from dn[OF this] obtain i where "(i, row) \<in> done_rows df []" ..
    with inv that show "all_in ef (Predecessors row) \<and>
        es (Task row) = Some (es_val ef row) \<and>
        ef (Task row) = Some (es_val ef row + Duration row)"
      unfolding fwd_inv_def by fastforce
  qed
  ultimately show ?thesis using l by blast
qed

subsection \<open>Unknown predecessors\<close>

lemmas load_defs = load_and_prepare_data_def init_row_def parse_predecessors_def
  build_successors_map_def add_successor_def get_successors_def

lemma dangling_never_returns:
  assumes "\<not> resolvable df"
  shows "es_ef_loop (enumerate 0 df) es Map.empty = None"
proof -
  from assms obtain row p where row: "row \<in> set df" and p: "p \<in> set (Predecessors row)"
    and np: "p \<notin> set (map Task df)"
    by (auto simp: resolvable_def list_all_iff)
  from row_enumerate[OF row] obtain i where i: "(i, row) \<in> set (enumerate 0 df)" ..
  have "\<forall>jr\<in>set (enumerate 0 df). Task (snd jr) \<noteq> p"
    using np by (auto dest!: enumerate_row)
  with i p have "stuck_rows {(i, row)} (enumerate 0 df) Map.empty"
    unfolding stuck_rows_def by auto
  then show ?thesis by (rule es_ef_loop_stuck)
qed

text \<open>
  Claim C2, as amended. The claim asks for an UnknownPredecessor error at registry-build
  time. The script has no such check: \<open>load_and_prepare_data\<close> builds the frame for any
  rows, and when some row lists a predecessor that is not the task of any row, that row
  never qualifies in the forward pass, so \<open>calculate_es_ef\<close> does not return and the run
  produces nothing.
\<close>

theorem unknown_predecessor_never_returns:
  assumes "\<not> resolvable (load_and_prepare_data rows)"
  shows "calculate_es_ef (load_and_prepare_data rows) = None \<and> run_cpm rows = None"
  using dangling_never_returns[OF assms]
  by (simp add: calculate_es_ef_def run_cpm_def)

theorem unknown_predecessor_never_returns_witness:
  "\<not> resolvable (load_and_prepare_data [(''A'', 1 :: int, ''X'')]) \<and>
   calculate_es_ef (load_and_prepare_data [(''A'', 1 :: int, ''X'')]) = None \<and>
   run_cpm [(''A'', 1 :: int, ''X'')] = None"
proof -
  have h: "\<not> resolvable (load_and_prepare_data [(''A'', 1 :: int, ''X'')])"
    by (simp add: resolvable_def load_defs)
  from unknown_predecessor_never_returns[OF h] h show ?thesis by simp
qed

text \<open>
  Claim C2 as stated fails: for the rows A (no predecessor) and B (predecessor Z, which
  is no task) the frame is built without an error and the run does not return.
\<close>

theorem unknown_predecessor_counterexample:
  "load_and_prepare_data [(''A'', 3 :: int, ''''), (''B'', 2, ''Z'')] =
     [\<lparr>Task = ''A'', Duration = 3, Predecessors = [], ES = 0, EF = 0, LS = 0, LF = 0,
        Slack = 0, Critical = False, Successors = []\<rparr>,
      \<lparr>Task = ''B'', Duration = 2, Predecessors = [''Z''], ES = 0, EF = 0, LS = 0, LF = 0,
        Slack = 0, Critical = False, Successors = []\<rparr>] \<and>
   run_cpm [(''A'', 3 :: int, ''''), (''B'', 2, ''Z'')] = None"
proof -
  have "\<not> resolvable (load_and_prepare_data [(''A'', 3 :: int, ''''), (''B'', 2, ''Z'')])"
    by (simp add: resolvable_def load_defs)
  from dangling_never_returns[OF this] show ?thesis
    by (simp add: calculate_es_ef_def run_cpm_def) (simp add: load_defs)
qed

subsection \<open>Cycles\<close>

lemma cycle_never_returns:
  fixes df :: "'n::{zero,plus,minus,linorder} frame"
  assumes u: "unique_names df" and cyc: "\<not> acyclic_preds df"
  shows "es_ef_loop (enumerate 0 df) es Map.empty = None"
proof -
  let ?R = "set (pred_edges df)"
  from cyc obtain n where n: "(n, n) \<in> ?R\<^sup>+"
    by (auto simp: acyclic_preds_def acyclic_def)
  define C where "C = {m. (n, m) \<in> ?R\<^sup>+ \<and> (m, n) \<in> ?R\<^sup>+}"
  define S where "S = {ir \<in> set (enumerate 0 df). Task (snd ir) \<in> C}"
  have step: "\<exists>p. (p, m) \<in> ?R \<and> p \<in> C" if m: "m \<in> C" for m
  proof -
    from m have nm: "(n, m) \<in> ?R\<^sup>+" and mn: "(m, n) \<in> ?R\<^sup>+" by (simp_all add: C_def)
    from nm obtain p where p: "(n, p) \<in> ?R\<^sup>*" "(p, m) \<in> ?R"
      by (meson tranclD2)
    from p(1) n have "(n, p) \<in> ?R\<^sup>+" by (auto simp: rtrancl_eq_or_trancl)
    moreover from p(2) mn have "(p, n) \<in> ?R\<^sup>+" by (rule trancl_into_trancl2)
    ultimately show ?thesis using p(2) by (auto simp: C_def)
  qed
  have nC: "n \<in> C" using n by (simp add: C_def)
  from step[OF nC] obtain p0 where "(p0, n) \<in> ?R" by blast
  then obtain row0 where row0: "row0 \<in> set df" "Task row0 = n"
    by (auto simp: pred_edges_iff)
  from row_enumerate[OF row0(1)] obtain i0 where "(i0, row0) \<in> set (enumerate 0 df)" ..
  with row0(2) nC have ne: "S \<noteq> {}" by (auto simp: S_def)
  have closed: "\<exists>p\<in>set (Predecessors (snd ir)).
        Map.empty p = (None :: 'n option) \<and>
        (\<forall>jr\<in>set (enumerate 0 df). Task (snd jr) = p \<longrightarrow> jr \<in> S)"
    if ir: "ir \<in> S" for ir
  proof -
    from ir have e: "ir \<in> set (enumerate 0 df)" and c: "Task (snd ir) \<in> C"
      by (simp_all add: S_def)
    from step[OF c] obtain p where p: "(p, Task (snd ir)) \<in> ?R" "p \<in> C" by blast
    from p(1) obtain row' where row': "row' \<in> set df" "Task row' = Task (snd ir)"
      "p \<in> set (Predecessors row')"
      by (auto simp: pred_edges_iff)
    from row_unique_name[OF u row'(1) enumerate_row[OF e] row'(2)] row'(3)
    have "p \<in> set (Predecessors (snd ir))" by simp
    with p(2) show ?thesis by (auto simp: S_def)
  qed
  have "stuck_rows S (enumerate 0 df) Map.empty"
    unfolding stuck_rows_def using ne closed by (auto simp: S_def)
  then show ?thesis by (rule es_ef_loop_stuck)
qed

text \<open>
  Claim C1, as amended. The claim asks for a CycleError. The loops of the script have no
  guard against a sweep that resolves nothing: when the tasks are unique and the
  predecessor relation has a cycle, the rows on the cycle never qualify, the \<open>while\<close>
  loop of \<open>calculate_es_ef\<close> never ends, and the run returns neither an error nor a
  (partial) result.
\<close>

theorem cycle_forward_pass_never_returns:
  assumes "unique_names (load_and_prepare_data rows)"
    and "\<not> acyclic_preds (load_and_prepare_data rows)"
  shows "calculate_es_ef (load_and_prepare_data rows) = None \<and> run_cpm rows = None"
  using cycle_never_returns[OF assms]
  by (simp add: calculate_es_ef_def run_cpm_def)

theorem cycle_forward_pass_never_returns_witness:
  "unique_names (load_and_prepare_data [(''A'', 1 :: int, ''C''), (''B'', 2, ''A''), (''C'', 3, ''B'')]) \<and>
   \<not> acyclic_preds (load_and_prepare_data [(''A'', 1 :: int, ''C''), (''B'', 2, ''A''), (''C'', 3, ''B'')]) \<and>
   calculate_es_ef (load_and_prepare_data [(''A'', 1 :: int, ''C''), (''B'', 2, ''A''), (''C'', 3, ''B'')]) = None \<and>
   run_cpm [(''A'', 1 :: int, ''C''), (''B'', 2, ''A''), (''C'', 3, ''B'')] = None"
proof -
  have h1: "unique_names (load_and_prepare_data [(''A'', 1 :: int, ''C''), (''B'', 2, ''A''), (''C'', 3, ''B'')])"
    by code_simp
  have h2: "\<not> acyclic_preds (load_and_prepare_data [(''A'', 1 :: int, ''C''), (''B'', 2, ''A''), (''C'', 3, ''B'')])"
    by code_simp
  from cycle_forward_pass_never_returns[OF h1 h2] h1 h2 show ?thesis by simp
qed

text \<open>
  Claim C1 as stated fails: for A depending on B and B depending on A the forward pass
  does not return, so no CycleError is produced.
\<close>

theorem cycle_error_counterexample:
  "calculate_es_ef (load_and_prepare_data [(''A'', 1 :: int, ''B''), (''B'', 1, ''A'')]) = None"
proof -
  have h1: "unique_names (load_and_prepare_data [(''A'', 1 :: int, ''B''), (''B'', 1, ''A'')])"
    by code_simp
  have h2: "\<not> acyclic_preds (load_and_prepare_data [(''A'', 1 :: int, ''B''), (''B'', 1, ''A'')])"
    by code_simp
  from cycle_never_returns[OF h1 h2] show ?thesis
    by (simp add: calculate_es_ef_def)
qed

subsection \<open>The backward loop; no exception is raised\<close>

lemma late_finish_ready:
  "all_in ls_dict (Successors row) \<Longrightarrow>
   late_finish ls_dict pf row = Inr (lf_val ls_dict pf row)"
  by (simp add: late_finish_def lf_val_def getitems_all_in py_min_Min)

lemma ls_lf_loop_rule:
  assumes inv: "I remaining ls lf"
    and progress: "\<And>rem ls lf. I rem ls lf \<Longrightarrow> rem \<noteq> [] \<Longrightarrow>
           \<exists>ir\<in>set rem. all_in ls (Successors (snd ir))"
    and pres: "\<And>rem ls lf ir. I rem ls lf \<Longrightarrow> ir \<in> set rem \<Longrightarrow>
           all_in ls (Successors (snd ir)) \<Longrightarrow>
           I (drop_label (fst ir) rem)
             (ls(Task (snd ir) \<mapsto> lf_val ls pf (snd ir) - Duration (snd ir)))
             (lf(Task (snd ir) \<mapsto> lf_val ls pf (snd ir)))"
  shows "\<exists>ls' lf'. ls_lf_loop remaining pf ls lf = Some (Inr (ls', lf')) \<and> I [] ls' lf'"
  using inv
proof (induction "length remaining" arbitrary: remaining ls lf rule: less_induct)
  case less
  show ?case
  proof (cases "remaining = []")
    case True
    with less.prems show ?thesis by (simp add: ls_lf_loop.simps)
  next
    case False
    from progress[OF less.prems False] obtain jr where
      jr: "jr \<in> set remaining" "all_in ls (Successors (snd jr))" by blast
    then obtain ir where f: "find (\<lambda>ir. all_in ls (Successors (snd ir))) remaining = Some ir"
      using find_ex_Some[of jr remaining "\<lambda>ir. all_in ls (Successors (snd ir))"] by blast
    from find_SomeD[OF f] have ir: "ir \<in> set remaining" "all_in ls (Successors (snd ir))"
      by simp_all
    let ?ls = "ls(Task (snd ir) \<mapsto> lf_val ls pf (snd ir) - Duration (snd ir))"
    let ?lf = "lf(Task (snd ir) \<mapsto> lf_val ls pf (snd ir))"
    have I': "I (drop_label (fst ir) remaining) ?ls ?lf"
      by (rule pres[OF less.prems ir])
    from less.hyps[OF length_drop_label[OF ir(1)] I']
    obtain ls' lf' where
      "ls_lf_loop (drop_label (fst ir) remaining) pf ?ls ?lf = Some (Inr (ls', lf'))"
      "I [] ls' lf'" by blast
    then show ?thesis
      using False f late_finish_ready[OF ir(2), of pf]
      by (subst ls_lf_loop.simps) simp
  qed
qed

lemma es_ef_loop_no_error:
  assumes "es_ef_loop rem0 es0 ef0 = Some y0"
  shows "\<exists>d. y0 = Inr d"
proof (rule es_ef_loop.raw_induct[where P = "\<lambda>rem es ef y. \<exists>d. y = Inr d", OF _ assms],
    goal_cases)
  case (1 loop rem es ef y)
  note IH = 1(1) and body = 1(2)
  show ?case
  proof (cases "rem = []")
    case True
    with body show ?thesis by auto
  next
    case False
    show ?thesis
    proof (cases "find (\<lambda>ir. all_in ef (Predecessors (snd ir))) rem")
      case None
      with body False have "loop rem es ef = Some y" by simp
      then show ?thesis by (rule IH)
    next
      case (Some ir)
      from find_SomeD[OF Some] have "all_in ef (Predecessors (snd ir))" by simp
      from body False Some early_start_ready[OF this]
      have "loop (drop_label (fst ir) rem) (es(Task (snd ir) \<mapsto> es_val ef (snd ir)))
              (ef(Task (snd ir) \<mapsto> es_val ef (snd ir) + Duration (snd ir))) = Some y"
        by simp
      then show ?thesis by (rule IH)
    qed
  qed
qed

lemma ls_lf_loop_no_error:
  assumes "ls_lf_loop rem0 pf0 ls0 lf0 = Some y0"
  shows "\<exists>d. y0 = Inr d"
proof (rule ls_lf_loop.raw_induct[where P = "\<lambda>rem pf ls lf y. \<exists>d. y = Inr d", OF _ assms],
    goal_cases)
  case (1 loop rem pf ls lf y)
  note IH = 1(1) and body = 1(2)
  show ?case
  proof (cases "rem = []")
    case True
    with body show ?thesis by auto
  next
    case False
    show ?thesis
    proof (cases "find (\<lambda>ir. all_in ls (Successors (snd ir))) rem")
      case None
      with body False have "loop rem pf ls lf = Some y" by simp
      then show ?thesis by (rule IH)
    next
      case (Some ir)
      from find_SomeD[OF Some] have "all_in ls (Successors (snd ir))" by simp
      from body False Some late_finish_ready[OF this, of pf]
      have "loop (drop_label (fst ir) rem) pf
              (ls(Task (snd ir) \<mapsto> lf_val ls pf (snd ir) - Duration (snd ir)))
              (lf(Task (snd ir) \<mapsto> lf_val ls pf (snd ir))) = Some y"
        by simp
      then show ?thesis by (rule IH)
    qed
  qed
qed

lemma ls_lf_loop_keys_aux:
  assumes "ls_lf_loop rem0 pf0 ls0 lf0 = Some y0"
  shows "keys_post rem0 ls0 lf0 y0"
proof (rule ls_lf_loop.raw_induct[where P = "\<lambda>rem pf ls lf y. keys_post rem ls lf y", OF _ assms],
    goal_cases)
  case (1 loop rem pf ls lf y)
  note IH = 1(1) and body = 1(2)
  show ?case unfolding keys_post_def
  proof (intro impI allI)
    fix ls' lf' assume d: "distinct (map fst rem)" and y: "y = Inr (ls', lf')"
    show "(\<forall>ir\<in>set rem. ls' (Task (snd ir)) \<noteq> None \<and> lf' (Task (snd ir)) \<noteq> None) \<and>
        dom ls \<subseteq> dom ls' \<and> dom lf \<subseteq> dom lf'"
    proof (cases "rem = []")
      case True
      with body y show ?thesis by simp
    next
      case False
      show ?thesis
      proof (cases "find (\<lambda>ir. all_in ls (Successors (snd ir))) rem")
        case None
        with body False have "loop rem pf ls lf = Some y" by simp
        from IH[OF this] d y show ?thesis unfolding keys_post_def by blast
      next
        case (Some ir)
        from find_SomeD[OF Some] have ir: "ir \<in> set rem" "all_in ls (Successors (snd ir))"
          by simp_all
        let ?ls = "ls(Task (snd ir) \<mapsto> lf_val ls pf (snd ir) - Duration (snd ir))"
        let ?lf = "lf(Task (snd ir) \<mapsto> lf_val ls pf (snd ir))"
        from body False Some late_finish_ready[OF ir(2), of pf]
        have "loop (drop_label (fst ir) rem) pf ?ls ?lf = Some y" by simp
        from IH[OF this] distinct_drop_label[OF d] y
        have a: "\<forall>jr\<in>set (drop_label (fst ir) rem). ls' (Task (snd jr)) \<noteq> None \<and> lf' (Task (snd jr)) \<noteq> None"
          and b: "dom ?ls \<subseteq> dom ls'" "dom ?lf \<subseteq> dom lf'" unfolding keys_post_def by blast+
        from b have c: "ls' (Task (snd ir)) \<noteq> None" "lf' (Task (snd ir)) \<noteq> None"
          "dom ls \<subseteq> dom ls'" "dom lf \<subseteq> dom lf'" by auto
        from a c show ?thesis unfolding set_drop_label[OF d ir(1)] by blast
      qed
    qed
  qed
qed

lemma ls_lf_loop_keys:
  assumes "ls_lf_loop (enumerate 0 df) pf ls lf = Some (Inr (ls', lf'))" and "row \<in> set df"
  shows "ls' (Task row) \<noteq> None \<and> lf' (Task row) \<noteq> None"
proof -
  from row_enumerate[OF assms(2)] obtain i where "(i, row) \<in> set (enumerate 0 df)" ..
  moreover have "distinct (map fst (enumerate 0 df))" by simp
  ultimately show ?thesis
    using ls_lf_loop_keys_aux[OF assms(1)] unfolding keys_post_def by fastforce
qed

lemma calculate_es_ef_no_error: "calculate_es_ef df \<noteq> Some (Inl e)"
  using es_ef_loop_no_error[of "enumerate 0 df" Map.empty Map.empty]
  by (auto simp: calculate_es_ef_def split: option.splits sum.splits)

lemma calculate_ls_lf_no_error: "calculate_ls_lf df \<noteq> Some (Inl e)"
  using ls_lf_loop_no_error[of "enumerate 0 df" "col_max (map EF df)" Map.empty
      "seed_lf df (col_max (map EF df))"]
  by (auto simp: calculate_ls_lf_def Let_def split: option.splits sum.splits)

lemma run_cpm_no_error: "run_cpm rows \<noteq> Some (Inl e)"
  using calculate_es_ef_no_error calculate_ls_lf_no_error
  by (auto simp: run_cpm_def split: option.splits sum.splits)

lemma run_cpm_SomeD:
  assumes "run_cpm rows = Some (Inr out)"
  obtains df1 df2 where "calculate_es_ef (load_and_prepare_data rows) = Some (Inr df1)"
    "calculate_ls_lf df1 = Some (Inr df2)" "out = calculate_slack df2"
  using assms by (auto simp: run_cpm_def split: option.splits sum.splits)

lemma load_Task: "map Task (load_and_prepare_data rows) = map fst rows"
  by (simp add: load_and_prepare_data_def Let_def init_row_def comp_def)

lemma calculate_es_ef_cols:
  assumes "calculate_es_ef df = Some (Inr df1)"
  shows "map Task df1 = map Task df" "map Duration df1 = map Duration df"
    "map Predecessors df1 = map Predecessors df" "map Successors df1 = map Successors df"
  using assms
  by (auto simp: calculate_es_ef_def comp_def split: option.splits sum.splits)

lemma calculate_ls_lf_cols:
  assumes "calculate_ls_lf df = Some (Inr df2)"
  shows "map Task df2 = map Task df" "map Duration df2 = map Duration df"
    "map Predecessors df2 = map Predecessors df" "map Successors df2 = map Successors df"
    "map ES df2 = map ES df" "map EF df2 = map EF df"
  using assms
  by (auto simp: calculate_ls_lf_def Let_def comp_def split: option.splits sum.splits)

lemma calculate_slack_cols:
  "map Task (calculate_slack df) = map Task df"
  "map Duration (calculate_slack df) = map Duration df"
  "map Predecessors (calculate_slack df) = map Predecessors df"
  "map Successors (calculate_slack df) = map Successors df"
  "map ES (calculate_slack df) = map ES df" "map EF (calculate_slack df) = map EF df"
  "map LS (calculate_slack df) = map LS df" "map LF (calculate_slack df) = map LF df"
  by (simp_all add: calculate_slack_def comp_def)

lemma run_cpm_Task:
  assumes "run_cpm rows = Some (Inr out)"
  shows "map Task out = map fst rows"
proof -
  from assms obtain df1 df2 where
    a: "calculate_es_ef (load_and_prepare_data rows) = Some (Inr df1)"
    "calculate_ls_lf df1 = Some (Inr df2)" "out = calculate_slack df2"
    by (rule run_cpm_SomeD)
  show ?thesis
    by (simp add: a(3) calculate_slack_cols calculate_ls_lf_cols(1)[OF a(2)]
        calculate_es_ef_cols(1)[OF a(1)] load_Task)
qed

lemma calculate_slack_row:
  "row \<in> set (calculate_slack df) \<Longrightarrow>
   Slack row = LS row - ES row \<and> (Critical row \<longleftrightarrow> Slack row = 0)"
  by (auto simp: calculate_slack_def)

subsection \<open>Duplicate names; the order of the critical path\<close>

text \<open>
  Claim C4, as amended. The claim asks for a DuplicateActivity error. The script never
  compares task names: for rows that share a task name \<open>load_and_prepare_data\<close> returns
  the frame with one row per input row, in input order and with the shared name kept,
  and the run on that frame raises no error.
\<close>

theorem duplicate_names_accepted:
  assumes "\<not> distinct (map fst rows)"
  shows "map Task (load_and_prepare_data rows) = map fst rows \<and>
         \<not> unique_names (load_and_prepare_data rows) \<and>
         (\<forall>e. run_cpm rows \<noteq> Some (Inl e))"
  using assms by (simp add: unique_names_def load_Task run_cpm_no_error)

theorem duplicate_names_accepted_witness:
  "\<not> distinct (map fst [(''A'', 3 :: int, ''''), (''B'', 2, ''A''), (''A'', 4, ''B'')]) \<and>
   map Task (load_and_prepare_data [(''A'', 3 :: int, ''''), (''B'', 2, ''A''), (''A'', 4, ''B'')]) =
     [''A'', ''B'', ''A''] \<and>
   \<not> unique_names (load_and_prepare_data [(''A'', 3 :: int, ''''), (''B'', 2, ''A''), (''A'', 4, ''B'')]) \<and>
   (\<forall>e. run_cpm [(''A'', 3 :: int, ''''), (''B'', 2, ''A''), (''A'', 4, ''B'')] \<noteq> Some (Inl e))"
proof -
  have h: "\<not> distinct (map fst [(''A'', 3 :: int, ''''), (''B'', 2, ''A''), (''A'', 4, ''B'')])"
    by simp
  from duplicate_names_accepted[OF h] h show ?thesis by simp
qed

text \<open>
  Claim C4 as stated fails: two rows named A are loaded into a frame and the run
  returns a table for them.
\<close>

theorem duplicate_activity_counterexample:
  "load_and_prepare_data [(''A'', 1 :: int, ''''), (''A'', 2, '''')] =
     [\<lparr>Task = ''A'', Duration = 1, Predecessors = [], ES = 0, EF = 0, LS = 0, LF = 0,
        Slack = 0, Critical = False, Successors = []\<rparr>,
      \<lparr>Task = ''A'', Duration = 2, Predecessors = [], ES = 0, EF = 0, LS = 0, LF = 0,
        Slack = 0, Critical = False, Successors = []\<rparr>] \<and>
   run_cpm [(''A'', 1 :: int, ''''), (''A'', 2, '''')] =
     Some (Inr
       [\<lparr>Task = ''A'', Duration = 1, Predecessors = [], ES = 0, EF = 2, LS = 0, LF = 2,
          Slack = 0, Critical = True, Successors = []\<rparr>,
        \<lparr>Task = ''A'', Duration = 2, Predecessors = [], ES = 0, EF = 2, LS = 0, LF = 2,
          Slack = 0, Critical = True, Successors = []\<rparr>])"
  by code_simp

text \<open>
  Claim C3, as amended. \<open>print_critical_path\<close> does not sort: it selects the rows whose
  Critical flag is set and keeps them in the order of the frame, which is the order of
  the input rows. The sequence is exactly the zero-slack tasks in input order.
\<close>

theorem critical_path_in_input_order:
  assumes "run_cpm rows = Some (Inr out)"
  shows "map Task out = map fst rows \<and>
         critical_tasks out = map Task (filter (\<lambda>row. Slack row = 0) out) \<and>
         print_critical_path out = join '' -> '' (critical_tasks out)"
proof -
  from assms obtain df2 where "out = calculate_slack df2" by (rule run_cpm_SomeD)
  then have "filter Critical out = filter (\<lambda>row. Slack row = 0) out"
    by (auto intro!: filter_cong dest: calculate_slack_row)
  then show ?thesis
    by (simp add: critical_tasks_def print_critical_path_def run_cpm_Task[OF assms])
qed

theorem critical_path_in_input_order_witness:
  "run_cpm [(''C'', 4 :: int, ''B''), (''X'', 1, ''A''), (''B'', 2, ''A''), (''A'', 3, '''')] =
     Some (Inr
       [\<lparr>Task = ''C'', Duration = 4, Predecessors = [''B''], ES = 5, EF = 9, LS = 5, LF = 9,
          Slack = 0, Critical = True, Successors = []\<rparr>,
        \<lparr>Task = ''X'', Duration = 1, Predecessors = [''A''], ES = 3, EF = 4, LS = 8, LF = 9,
          Slack = 5, Critical = False, Successors = []\<rparr>,
        \<lparr>Task = ''B'', Duration = 2, Predecessors = [''A''], ES = 3, EF = 5, LS = 3, LF = 5,
          Slack = 0, Critical = True, Successors = [''C'']\<rparr>,
        \<lparr>Task = ''A'', Duration = 3, Predecessors = [], ES = 0, EF = 3, LS = 0, LF = 3,
          Slack = 0, Critical = True, Successors = [''X'', ''B'']\<rparr>]) \<and>
   critical_tasks
       [\<lparr>Task = ''C'', Duration = 4 :: int, Predecessors = [''B''], ES = 5, EF = 9, LS = 5, LF = 9,
          Slack = 0, Critical = True, Successors = []\<rparr>,
        \<lparr>Task = ''X'', Duration = 1, Predecessors = [''A''], ES = 3, EF = 4, LS = 8, LF = 9,
          Slack = 5, Critical = False, Successors = []\<rparr>,
        \<lparr>Task = ''B'', Duration = 2, Predecessors = [''A''], ES = 3, EF = 5, LS = 3, LF = 5,
          Slack = 0, Critical = True, Successors = [''C'']\<rparr>,
        \<lparr>Task = ''A'', Duration = 3, Predecessors = [], ES = 0, EF = 3, LS = 0, LF = 3,
          Slack = 0, Critical = True, Successors = [''X'', ''B'']\<rparr>] = [''C'', ''B'', ''A'']"
proof -
  have h: "run_cpm [(''C'', 4 :: int, ''B''), (''X'', 1, ''A''), (''B'', 2, ''A''), (''A'', 3, '''')] =
     Some (Inr
       [\<lparr>Task = ''C'', Duration = 4, Predecessors = [''B''], ES = 5, EF = 9, LS = 5, LF = 9,
          Slack = 0, Critical = True, Successors = []\<rparr>,
        \<lparr>Task = ''X'', Duration = 1, Predecessors = [''A''], ES = 3, EF = 4, LS = 8, LF = 9,
          Slack = 5, Critical = False, Successors = []\<rparr>,
        \<lparr>Task = ''B'', Duration = 2, Predecessors = [''A''], ES = 3, EF = 5, LS = 3, LF = 5,
          Slack = 0, Critical = True, Successors = [''C'']\<rparr>,
        \<lparr>Task = ''A'', Duration = 3, Predecessors = [], ES = 0, EF = 3, LS = 0, LF = 3,
          Slack = 0, Critical = True, Successors = [''X'', ''B'']\<rparr>])"
    by code_simp
  from critical_path_in_input_order[OF h] h show ?thesis by simp
qed

text \<open>
  Claim C3 as stated fails: the rows B (after A) and A, given in this order, are a valid
  acyclic input; both are critical, ES is 1 for B and 0 for A, and the sequence is B, A.
\<close>

theorem critical_path_es_order_counterexample:
  "unique_names (load_and_prepare_data [(''B'', 1 :: int, ''A''), (''A'', 1, '''')]) \<and>
   resolvable (load_and_prepare_data [(''B'', 1 :: int, ''A''), (''A'', 1, '''')]) \<and>
   acyclic_preds (load_and_prepare_data [(''B'', 1 :: int, ''A''), (''A'', 1, '''')]) \<and>
   nonneg_durations (load_and_prepare_data [(''B'', 1 :: int, ''A''), (''A'', 1, '''')]) \<and>
   run_cpm [(''B'', 1 :: int, ''A''), (''A'', 1, '''')] =
     Some (Inr
       [\<lparr>Task = ''B'', Duration = 1, Predecessors = [''A''], ES = 1, EF = 2, LS = 1, LF = 2,
          Slack = 0, Critical = True, Successors = []\<rparr>,
        \<lparr>Task = ''A'', Duration = 1, Predecessors = [], ES = 0, EF = 1, LS = 0, LF = 1,
          Slack = 0, Critical = True, Successors = [''B'']\<rparr>]) \<and>
   print_critical_path
       [\<lparr>Task = ''B'', Duration = 1 :: int, Predecessors = [''A''], ES = 1, EF = 2, LS = 1, LF = 2,
          Slack = 0, Critical = True, Successors = []\<rparr>,
        \<lparr>Task = ''A'', Duration = 1, Predecessors = [], ES = 0, EF = 1, LS = 0, LF = 1,
          Slack = 0, Critical = True, Successors = [''B'']\<rparr>] = ''B -> A''"
  by code_simp

subsection \<open>The Successors column and the backward pass\<close>

lemma add_successor_fold:
  "get_successors (fold (add_successor task) preds m) t =
   get_successors m t @ map (\<lambda>_. task) (filter (\<lambda>p. p = t) preds)"
  by (induction preds arbitrary: m) (auto simp: get_successors_def add_successor_def)

lemma successors_fold:
  "get_successors (fold (\<lambda>row m. fold (add_successor (Task row)) (Predecessors row) m) df m) t =
   get_successors m t @ succ_list df t"
  by (induction df arbitrary: m) (simp_all add: succ_list_def add_successor_fold)

lemma build_successors_map_eq:
  "get_successors (build_successors_map df) t = succ_list df t"
  by (simp add: build_successors_map_def successors_fold) (simp add: get_successors_def)

lemma set_succ_list: "set (succ_list df t) = {s. (t, s) \<in> set (pred_edges df)}"
  by (auto simp: succ_list_def pred_edges_def)

lemma pred_edges_map:
  assumes "\<And>row. Task (f row) = Task row" "\<And>row. Predecessors (f row) = Predecessors row"
  shows "pred_edges (map f df) = pred_edges df"
  by (simp add: pred_edges_def comp_def assms)

lemma successors_ok_map:
  assumes "\<And>row. Task (f row) = Task row" "\<And>row. Predecessors (f row) = Predecessors row"
    "\<And>row. Successors (f row) = Successors row"
  shows "successors_ok (map f df) = successors_ok df"
  by (simp add: successors_ok_def pred_edges_map[of f, OF assms(1,2)] assms)

lemma load_successors_ok: "successors_ok (load_and_prepare_data rows)"
proof -
  let ?df = "map init_row rows"
  let ?f = "\<lambda>row. row\<lparr>Successors := get_successors (build_successors_map ?df) (Task row)\<rparr>"
  have "pred_edges (map ?f ?df) = pred_edges ?df" by (rule pred_edges_map) simp_all
  then show ?thesis
    by (simp add: successors_ok_def load_and_prepare_data_def Let_def
        build_successors_map_eq set_succ_list)
qed

lemma lf_val_cong:
  "(\<And>s. s \<in> set (Successors row) \<Longrightarrow> ls' s = ls s) \<Longrightarrow> lf_val ls' pf row = lf_val ls pf row"
  unfolding lf_val_def by (auto intro!: arg_cong[where f = Min] image_cong)

lemma bwd_progress:
  assumes inv: "bwd_inv df pf rem ls lf" and sok: "successors_ok df" and acy: "acyclic_preds df"
    and ne: "rem \<noteq> []"
  shows "\<exists>ir\<in>set rem. all_in ls (Successors (snd ir))"
proof -
  have "wf ((set (pred_edges df))\<inverse>)"
    using acy by (simp add: acyclic_preds_def finite_acyclic_wf_converse)
  moreover from ne obtain kr where "kr \<in> set rem" by (cases rem) auto
  then have "Task (snd kr) \<in> (\<lambda>ir. Task (snd ir)) ` set rem" by blast
  ultimately obtain z where z: "z \<in> (\<lambda>ir. Task (snd ir)) ` set rem"
    and zmax: "\<And>y. (y, z) \<in> (set (pred_edges df))\<inverse> \<Longrightarrow> y \<notin> (\<lambda>ir. Task (snd ir)) ` set rem"
    by (rule wfE_min) blast
  from z obtain ir where ir: "ir \<in> set rem" "z = Task (snd ir)" by blast
  from inv ir(1) have irdf: "snd ir \<in> set df"
    by (auto simp: bwd_inv_def dest: enumerate_row)
  have "ls s \<noteq> None" if s: "s \<in> set (Successors (snd ir))" for s
  proof -
    from s sok irdf ir(2) have e: "(z, s) \<in> set (pred_edges df)"
      by (auto simp: successors_ok_def)
    then have "(s, z) \<in> (set (pred_edges df))\<inverse>" by simp
    from zmax[OF this] have notrem: "s \<notin> (\<lambda>ir. Task (snd ir)) ` set rem" .
    from e obtain row' where row': "row' \<in> set df" "Task row' = s"
      by (auto simp: pred_edges_iff)
    from row_enumerate[OF row'(1)] obtain j where j: "(j, row') \<in> set (enumerate 0 df)" ..
    with notrem row'(2) have "(j, row') \<in> done_rows df rem"
      by (force simp: done_rows_def)
    with inv row'(2) show ?thesis by (force simp: bwd_inv_def)
  qed
  then have "all_in ls (Successors (snd ir))" by (simp add: all_in_def list_all_iff)
  with ir(1) show ?thesis ..
qed

lemma bwd_preserve:
  assumes inv: "bwd_inv df pf rem ls lf" and ir: "ir \<in> set rem"
    and rdy: "all_in ls (Successors (snd ir))"
  shows "bwd_inv df pf (drop_label (fst ir) rem)
           (ls(Task (snd ir) \<mapsto> lf_val ls pf (snd ir) - Duration (snd ir)))
           (lf(Task (snd ir) \<mapsto> lf_val ls pf (snd ir)))"
    (is "bwd_inv df pf ?rem ?ls ?lf")
proof -
  from inv have sub: "set rem \<subseteq> set (enumerate 0 df)" and d: "distinct (map fst rem)"
    and g: "\<forall>jr\<in>done_rows df rem. ls (Task (snd jr)) \<noteq> None"
    by (simp_all add: bwd_inv_def)
  have dn: "done_rows df ?rem = insert ir (done_rows df rem)"
    by (rule done_rows_drop[OF sub d ir])
  have 1: "set ?rem \<subseteq> set (enumerate 0 df)"
    using sub by (auto simp: set_drop_label[OF d ir])
  have 2: "distinct (map fst ?rem)" by (rule distinct_drop_label[OF d])
  have 3: "\<forall>jr\<in>done_rows df ?rem. ?ls (Task (snd jr)) \<noteq> None"
    using g by (auto simp: dn)
  have 4: "dom ?ls \<subseteq> (\<lambda>ir. Task (snd ir)) ` done_rows df ?rem \<and>
        (\<forall>jr\<in>done_rows df ?rem.
           all_in ?ls (Successors (snd jr)) \<and>
           ?lf (Task (snd jr)) = Some (lf_val ?ls pf (snd jr)) \<and>
           ?ls (Task (snd jr)) = Some (lf_val ?ls pf (snd jr) - Duration (snd jr)))"
    if u: "unique_names df"
  proof -
    from inv u have dom: "dom ls \<subseteq> (\<lambda>ir. Task (snd ir)) ` done_rows df rem"
      and eqs: "\<forall>jr\<in>done_rows df rem.
           all_in ls (Successors (snd jr)) \<and>
           lf (Task (snd jr)) = Some (lf_val ls pf (snd jr)) \<and>
           ls (Task (snd jr)) = Some (lf_val ls pf (snd jr) - Duration (snd jr))"
      by (simp_all add: bwd_inv_def)
    have fresh: "Task (snd jr) \<noteq> Task (snd ir)" if "jr \<in> done_rows df rem" for jr
    proof
      assume "Task (snd jr) = Task (snd ir)"
      with enumerate_unique_name[OF u, of jr ir] that ir sub have "jr = ir"
        by (auto simp: done_rows_def)
      with that ir show False by (simp add: done_rows_def)
    qed
    then have nodom: "Task (snd ir) \<notin> dom ls" using dom by force
    have same: "lf_val ?ls pf row = lf_val ls pf row" if "all_in ls (Successors row)" for row
    proof (rule lf_val_cong)
      fix s assume "s \<in> set (Successors row)"
      with that have "s \<in> dom ls" by (auto simp: all_in_iff)
      with nodom show "?ls s = ls s" by auto
    qed
    have a: "dom ?ls \<subseteq> (\<lambda>ir. Task (snd ir)) ` done_rows df ?rem"
      using dom by (auto simp: dn)
    have b: "all_in ?ls (Successors (snd jr)) \<and>
           ?lf (Task (snd jr)) = Some (lf_val ?ls pf (snd jr)) \<and>
           ?ls (Task (snd jr)) = Some (lf_val ?ls pf (snd jr) - Duration (snd jr))"
      if jr: "jr \<in> done_rows df ?rem" for jr
    proof (cases "jr = ir")
      case True
      with rdy same[OF rdy] show ?thesis by (simp add: all_in_upd)
    next
      case False
      with jr dn have j: "jr \<in> done_rows df rem" by simp
      with eqs have e: "all_in ls (Successors (snd jr))"
        "lf (Task (snd jr)) = Some (lf_val ls pf (snd jr))"
        "ls (Task (snd jr)) = Some (lf_val ls pf (snd jr) - Duration (snd jr))" by blast+
      with fresh[OF j] same[OF e(1)] show ?thesis by (simp add: all_in_upd)
    qed
    from a b show ?thesis by blast
  qed
  from 1 2 3 4 show ?thesis unfolding bwd_inv_def by blast
qed

lemma bwd_inv_init: "bwd_inv df pf (enumerate 0 df) Map.empty lf0"
  by (simp add: bwd_inv_def done_rows_def)

lemma ls_lf_loop_returns:
  assumes sok: "successors_ok df" and acy: "acyclic_preds df"
  shows "\<exists>ls lf. ls_lf_loop (enumerate 0 df) pf Map.empty lf0 = Some (Inr (ls, lf)) \<and>
           (unique_names df \<longrightarrow> late_times df pf ls lf)"
proof -
  have "\<exists>ls lf. ls_lf_loop (enumerate 0 df) pf Map.empty lf0 = Some (Inr (ls, lf)) \<and>
          bwd_inv df pf [] ls lf"
    by (rule ls_lf_loop_rule[where I = "bwd_inv df pf", OF bwd_inv_init])
       (auto intro: bwd_progress[OF _ sok acy] bwd_preserve)
  then obtain ls lf where l: "ls_lf_loop (enumerate 0 df) pf Map.empty lf0 = Some (Inr (ls, lf))"
    and inv: "bwd_inv df pf [] ls lf" by blast
  have dn: "\<And>row. row \<in> set df \<Longrightarrow> \<exists>i. (i, row) \<in> done_rows df []"
    by (simp add: done_rows_def row_enumerate)
  have "late_times df pf ls lf" if "unique_names df"
    unfolding late_times_def
  proof
    fix row assume "row \<in> set df"
    from dn[OF this] obtain i where "(i, row) \<in> done_rows df []" ..
    with inv that show "all_in ls (Successors row) \<and>
        lf (Task row) = Some (lf_val ls pf row) \<and>
        ls (Task row) = Some (lf_val ls pf row - Duration row)"
      unfolding bwd_inv_def by fastforce
  qed
  then show ?thesis using l by blast
qed

subsection \<open>The table of a valid run\<close>

lemma es_val_fields [simp]:
  "es_val ef (row\<lparr>ES := a\<rparr>) = es_val ef row" "es_val ef (row\<lparr>EF := a\<rparr>) = es_val ef row"
  "es_val ef (row\<lparr>LS := a\<rparr>) = es_val ef row" "es_val ef (row\<lparr>LF := a\<rparr>) = es_val ef row"
  "es_val ef (row\<lparr>Slack := a\<rparr>) = es_val ef row" "es_val ef (row\<lparr>Critical := b\<rparr>) = es_val ef row"
  by (simp_all add: es_val_def)

lemma lf_val_fields [simp]:
  "lf_val ls pf (row\<lparr>ES := a\<rparr>) = lf_val ls pf row" "lf_val ls pf (row\<lparr>EF := a\<rparr>) = lf_val ls pf row"
  "lf_val ls pf (row\<lparr>LS := a\<rparr>) = lf_val ls pf row" "lf_val ls pf (row\<lparr>LF := a\<rparr>) = lf_val ls pf row"
  "lf_val ls pf (row\<lparr>Slack := a\<rparr>) = lf_val ls pf row" "lf_val ls pf (row\<lparr>Critical := b\<rparr>) = lf_val ls pf row"
  by (simp_all add: lf_val_def)

lemma calculate_es_ef_valid:
  assumes u: "unique_names df" and r: "resolvable df" and a: "acyclic_preds df"
  shows "\<exists>ef. calculate_es_ef df =
            Some (Inr (map (\<lambda>row. row\<lparr>ES := es_val ef row,
                                       EF := es_val ef row + Duration row\<rparr>) df)) \<and>
          (\<forall>row\<in>set df. all_in ef (Predecessors row) \<and>
                          ef (Task row) = Some (es_val ef row + Duration row))"
proof -
  from es_ef_loop_returns[OF r a] u obtain es ef where
    l: "es_ef_loop (enumerate 0 df) Map.empty Map.empty = Some (Inr (es, ef))"
    and e: "early_times df es ef" by blast
  have "map (\<lambda>row. row\<lparr>ES := map_col es row, EF := map_col ef row\<rparr>) df =
        map (\<lambda>row. row\<lparr>ES := es_val ef row, EF := es_val ef row + Duration row\<rparr>) df"
    using e by (auto simp: early_times_def map_col_def)
  with l have "calculate_es_ef df =
            Some (Inr (map (\<lambda>row. row\<lparr>ES := es_val ef row,
                                       EF := es_val ef row + Duration row\<rparr>) df))"
    by (simp add: calculate_es_ef_def)
  with e show ?thesis unfolding early_times_def by blast
qed

lemma calculate_ls_lf_valid:
  assumes u: "unique_names df" and s: "successors_ok df" and a: "acyclic_preds df"
  shows "\<exists>ls. calculate_ls_lf df =
            Some (Inr (map (\<lambda>row. row\<lparr>LF := lf_val ls (col_max (map EF df)) row,
                                       LS := lf_val ls (col_max (map EF df)) row - Duration row\<rparr>) df)) \<and>
          (\<forall>row\<in>set df. all_in ls (Successors row) \<and>
                          ls (Task row) = Some (lf_val ls (col_max (map EF df)) row - Duration row))"
proof -
  let ?pf = "col_max (map EF df)"
  from ls_lf_loop_returns[OF s a, of ?pf "seed_lf df ?pf"] u obtain ls lf where
    l: "ls_lf_loop (enumerate 0 df) ?pf Map.empty (seed_lf df ?pf) = Some (Inr (ls, lf))"
    and e: "late_times df ?pf ls lf" by blast
  have "map (\<lambda>row. row\<lparr>LF := map_col lf row, LS := map_col ls row\<rparr>) df =
        map (\<lambda>row. row\<lparr>LF := lf_val ls ?pf row, LS := lf_val ls ?pf row - Duration row\<rparr>) df"
    using e by (auto simp: late_times_def map_col_def)
  with l have "calculate_ls_lf df =
            Some (Inr (map (\<lambda>row. row\<lparr>LF := lf_val ls ?pf row,
                                       LS := lf_val ls ?pf row - Duration row\<rparr>) df))"
    by (simp add: calculate_ls_lf_def Let_def)
  with e show ?thesis unfolding late_times_def by blast
qed

lemma run_cpm_valid:
  assumes u: "unique_names (load_and_prepare_data rows)"
    and r: "resolvable (load_and_prepare_data rows)"
    and a: "acyclic_preds (load_and_prepare_data rows)"
  shows "\<exists>out ef ls. run_cpm rows = Some (Inr out) \<and> cpm_table out ef ls \<and>
           unique_names out \<and> successors_ok out \<and>
           pred_edges out = pred_edges (load_and_prepare_data rows) \<and>
           map Duration out = map Duration (load_and_prepare_data rows)"
proof -
  let ?df = "load_and_prepare_data rows"
  from calculate_es_ef_valid[OF u r a] obtain ef where
    c1: "calculate_es_ef ?df = Some (Inr (map (\<lambda>row. row\<lparr>ES := es_val ef row,
                                       EF := es_val ef row + Duration row\<rparr>) ?df))"
    and e1: "\<forall>row\<in>set ?df. all_in ef (Predecessors row) \<and>
                          ef (Task row) = Some (es_val ef row + Duration row)"
    by blast
  let ?f1 = "\<lambda>row. row\<lparr>ES := es_val ef row, EF := es_val ef row + Duration row\<rparr>"
  let ?df1 = "map ?f1 ?df"
  have pe1: "pred_edges ?df1 = pred_edges ?df" by (rule pred_edges_map) simp_all
  have u1: "unique_names ?df1" using u by (simp add: unique_names_def comp_def)
  have s1: "successors_ok ?df1"
    using load_successors_ok[of rows] successors_ok_map[of ?f1 ?df] by simp
  have a1: "acyclic_preds ?df1" using a by (simp add: acyclic_preds_def pe1)
  let ?pf = "col_max (map EF ?df1)"
  from calculate_ls_lf_valid[OF u1 s1 a1] obtain ls where
    c2: "calculate_ls_lf ?df1 = Some (Inr (map (\<lambda>row. row\<lparr>LF := lf_val ls ?pf row,
                                       LS := lf_val ls ?pf row - Duration row\<rparr>) ?df1))"
    and e2: "\<forall>row\<in>set ?df1. all_in ls (Successors row) \<and>
                          ls (Task row) = Some (lf_val ls ?pf row - Duration row)"
    by blast
  let ?f2 = "\<lambda>row. row\<lparr>LF := lf_val ls ?pf row, LS := lf_val ls ?pf row - Duration row\<rparr>"
  let ?out = "calculate_slack (map ?f2 ?df1)"
  have run: "run_cpm rows = Some (Inr ?out)"
    by (simp add: run_cpm_def c1 c2)
  have ef_out: "map EF ?out = map EF ?df1"
    by (simp add: calculate_slack_def comp_def)
  have tab: "cpm_table ?out ef ls"
    unfolding cpm_table_def ef_out
    using e1 e2 by (auto simp: calculate_slack_def)
  have pe: "pred_edges ?out = pred_edges ?df"
    unfolding calculate_slack_def by (simp add: pred_edges_def comp_def)
  have uo: "unique_names ?out"
    using u by (simp add: unique_names_def calculate_slack_def comp_def)
  have so: "successors_ok ?out"
    using s1 unfolding calculate_slack_def
    by (simp add: successors_ok_def pred_edges_def comp_def)
  have du: "map Duration ?out = map Duration ?df"
    by (simp add: calculate_slack_def comp_def)
  from run tab pe uo so du show ?thesis by blast
qed

subsection \<open>Slack and project finish\<close>

lemma col_max_Max: "xs \<noteq> [] \<Longrightarrow> col_max xs = Max (set xs)"
  using Max.set_eq_fold[of "hd xs" "tl xs"] by (cases xs) (simp_all add: col_max_def)

lemma col_max_ge: "x \<in> set xs \<Longrightarrow> x \<le> col_max xs"
  by (cases "xs = []") (simp_all add: col_max_Max)


lemma table_successor:
  assumes t: "cpm_table out ef ls" and s: "successors_ok out"
    and row: "row \<in> set out" and su: "s \<in> set (Successors row)"
  obtains r' where "r' \<in> set out" "Task r' = s" "Task row \<in> set (Predecessors r')"
    "the (ls s) = LS r'" "EF row \<le> ES r'" "(s, Task row) \<in> (set (pred_edges out))\<inverse>"
proof -
  from s row su have e: "(Task row, s) \<in> set (pred_edges out)"
    by (auto simp: successors_ok_def)
  then obtain r' where r': "r' \<in> set out" "Task r' = s" "Task row \<in> set (Predecessors r')"
    by (auto simp: pred_edges_iff)
  from t r'(1) r'(2) have l: "the (ls s) = LS r'" by (auto simp: cpm_table_def)
  from t row have "the (ef (Task row)) = EF row" by (auto simp: cpm_table_def)
  with r'(3) have "EF row \<in> (\<lambda>p. the (ef p)) ` set (Predecessors r')" by force
  then have "EF row \<le> Max ((\<lambda>p. the (ef p)) ` set (Predecessors r'))" by simp
  moreover from t r'(1) r'(3) have "ES r' = Max ((\<lambda>p. the (ef p)) ` set (Predecessors r'))"
    by (auto simp: cpm_table_def es_val_def)
  ultimately have "EF row \<le> ES r'" by simp
  with r' l e show ?thesis by (intro that[of r']) simp_all
qed

lemma table_slack_nonneg:
  fixes out :: "int frame"
  assumes t: "cpm_table out ef ls" and s: "successors_ok out" and a: "acyclic_preds out"
    and row: "row \<in> set out"
  shows "ES row \<le> LS row"
proof -
  have w: "wf ((set (pred_edges out))\<inverse>)"
    using a by (simp add: acyclic_preds_def finite_acyclic_wf_converse)
  have "\<forall>row\<in>set out. Task row = n \<longrightarrow> ES row \<le> LS row" for n
  proof (induction n rule: wf_induct_rule[OF w])
    case (1 n)
    show ?case
    proof (intro ballI impI)
      fix row assume row: "row \<in> set out" and n: "Task row = n"
      from t row have eq: "EF row = ES row + Duration row" "LS row = LF row - Duration row"
        "LF row = lf_val ls (col_max (map EF out)) row"
        by (auto simp: cpm_table_def)
      have "EF row \<le> LF row"
      proof (cases "Successors row = []")
        case True
        with eq(3) have "LF row = col_max (map EF out)" by (simp add: lf_val_def)
        with row show ?thesis by (simp add: col_max_ge)
      next
        case False
        have "EF row \<le> the (ls s)" if su: "s \<in> set (Successors row)" for s
        proof -
          from table_successor[OF t s row su] obtain r' where
            r': "r' \<in> set out" "Task r' = s" "the (ls s) = LS r'" "EF row \<le> ES r'"
            "(s, Task row) \<in> (set (pred_edges out))\<inverse>" by metis
          from "1.IH"[of s] r' n have "ES r' \<le> LS r'" by blast
          with r' show ?thesis by simp
        qed
        with False eq(3) show ?thesis by (simp add: lf_val_def)
      qed
      with eq show "ES row \<le> LS row" by simp
    qed
  qed
  with row show ?thesis by blast
qed




subsection \<open>Properties of the table of a valid run\<close>

lemma nonneg_durations_iff: "nonneg_durations df \<longleftrightarrow> list_all (\<lambda>d. 0 \<le> d) (map Duration df)"
  by (simp add: nonneg_durations_def list_all_iff)

lemma load_Duration: "map Duration (load_and_prepare_data rows) = map (\<lambda>r. fst (snd r)) rows"
  by (simp add: load_and_prepare_data_def Let_def init_row_def comp_def)

lemma run_cpm_valid_table:
  assumes "valid_input rows"
  shows "\<exists>out ef ls. run_cpm rows = Some (Inr out) \<and> cpm_table out ef ls \<and>
           successors_ok out \<and> acyclic_preds out \<and> nonneg_durations out \<and>
           map Task out = map fst rows \<and> map Duration out = map (\<lambda>r. fst (snd r)) rows"
proof -
  from assms have u: "unique_names (load_and_prepare_data rows)"
    and r: "resolvable (load_and_prepare_data rows)"
    and d: "nonneg_durations (load_and_prepare_data rows)"
    and a: "acyclic_preds (load_and_prepare_data rows)"
    by (simp_all add: valid_input_def)
  from run_cpm_valid[OF u r a] obtain out ef ls where
    o: "run_cpm rows = Some (Inr out)" "cpm_table out ef ls" "successors_ok out"
    "pred_edges out = pred_edges (load_and_prepare_data rows)"
    "map Duration out = map Duration (load_and_prepare_data rows)" by blast
  from o(4) a have "acyclic_preds out" by (simp add: acyclic_preds_def)
  moreover from o(5) d have "nonneg_durations out" by (simp add: nonneg_durations_iff)
  moreover note run_cpm_Task[OF o(1)]
  moreover from o(5) have "map Duration out = map (\<lambda>r. fst (snd r)) rows"
    by (simp add: load_Duration)
  ultimately show ?thesis using o(1,2,3) by blast
qed

text \<open>
  Claim C8, as amended. For a valid acyclic activity set the run returns a table with one
  row per input row, and every row satisfies EF = ES + Duration and LS = LF - Duration:
  these are the two assignments of the loops, in the arithmetic of the column. When the
  durations are integers the second equation is the same as LF = LS + Duration.
\<close>

theorem finish_is_start_plus_duration:
  fixes rows :: "'n::{zero,plus,minus,linorder} csv_row list" and irows :: "int csv_row list"
  shows "(valid_input rows \<longrightarrow>
            (\<exists>out. run_cpm rows = Some (Inr out) \<and>
               map Task out = map fst rows \<and> map Duration out = map (\<lambda>r. fst (snd r)) rows \<and>
               (\<forall>row\<in>set out. EF row = ES row + Duration row \<and>
                                LS row = LF row - Duration row))) \<and>
         (valid_input irows \<longrightarrow>
            (\<exists>out. run_cpm irows = Some (Inr out) \<and>
               map Task out = map fst irows \<and> map Duration out = map (\<lambda>r. fst (snd r)) irows \<and>
               (\<forall>row\<in>set out. EF row = ES row + Duration row \<and>
                                LF row = LS row + Duration row)))"
proof (intro conjI impI)
  assume "valid_input rows"
  from run_cpm_valid_table[OF this] obtain out ef ls where
    o: "run_cpm rows = Some (Inr out)" "cpm_table out ef ls"
    "map Task out = map fst rows" "map Duration out = map (\<lambda>r. fst (snd r)) rows" by blast
  from o(2) have "\<forall>row\<in>set out. EF row = ES row + Duration row \<and> LS row = LF row - Duration row"
    by (auto simp: cpm_table_def)
  with o show "\<exists>out. run_cpm rows = Some (Inr out) \<and>
               map Task out = map fst rows \<and> map Duration out = map (\<lambda>r. fst (snd r)) rows \<and>
               (\<forall>row\<in>set out. EF row = ES row + Duration row \<and>
                                LS row = LF row - Duration row)" by blast
next
  assume "valid_input irows"
  from run_cpm_valid_table[OF this] obtain out ef ls where
    o: "run_cpm irows = Some (Inr out)" "cpm_table out ef ls"
    "map Task out = map fst irows" "map Duration out = map (\<lambda>r. fst (snd r)) irows" by blast
  from o(2) have "\<forall>row\<in>set out. EF row = ES row + Duration row \<and> LF row = LS row + Duration row"
    by (auto simp: cpm_table_def)
  with o show "\<exists>out. run_cpm irows = Some (Inr out) \<and>
               map Task out = map fst irows \<and> map Duration out = map (\<lambda>r. fst (snd r)) irows \<and>
               (\<forall>row\<in>set out. EF row = ES row + Duration row \<and>
                                LF row = LS row + Duration row)" by blast
qed

theorem finish_is_start_plus_duration_witness:
  "valid_input tenths \<and>
   (\<exists>out. run_cpm tenths = Some (Inr out) \<and>
      map Task out = map fst tenths \<and> map Duration out = map (\<lambda>r. fst (snd r)) tenths \<and>
      (\<forall>row\<in>set out. EF row = ES row + Duration row \<and> LS row = LF row - Duration row)) \<and>
   valid_input branches \<and>
   (\<exists>out. run_cpm branches = Some (Inr out) \<and>
      map Task out = map fst branches \<and> map Duration out = map (\<lambda>r. fst (snd r)) branches \<and>
      (\<forall>row\<in>set out. EF row = ES row + Duration row \<and> LF row = LS row + Duration row))"
proof -
  have h1: "valid_input tenths" by code_simp
  have h2: "valid_input branches" by code_simp
  from finish_is_start_plus_duration[of tenths branches] h1 h2 show ?thesis by blast
qed

text \<open>
  Claim C8 as stated fails on fractional durations. The rows A (0.11) and B (0.04), both
  without predecessors, are a valid acyclic input. The project finish is 0.11; B gets
  LF = 0.11 and LS = 0.11 - 0.04, which is rounded to the binary64 number 0.07, and
  0.07 + 0.04 is the binary64 number 0.11000000000000001, not LF.
\<close>

theorem late_finish_float_counterexample:
  "valid_input [(''A'', f64 (11 / 100), ''''), (''B'', f64 (4 / 100), '''')] \<and>
   run_cpm [(''A'', f64 (11 / 100), ''''), (''B'', f64 (4 / 100), '''')] =
     Some (Inr
       [\<lparr>Task = ''A'', Duration = Float64 (7926335344172073 / 72057594037927936),
          Predecessors = [], ES = Float64 0,
          EF = Float64 (7926335344172073 / 72057594037927936),
          LS = Float64 0,
          LF = Float64 (7926335344172073 / 72057594037927936),
          Slack = Float64 0, Critical = True,
          Successors = []\<rparr>,
        \<lparr>Task = ''B'', Duration = Float64 (5764607523034235 / 144115188075855872),
          Predecessors = [], ES = Float64 0,
          EF = Float64 (5764607523034235 / 144115188075855872),
          LS = Float64 (1261007895663739 / 18014398509481984),
          LF = Float64 (7926335344172073 / 72057594037927936),
          Slack = Float64 (1261007895663739 / 18014398509481984), Critical = False,
          Successors = []\<rparr>]) \<and>
   Float64 (1261007895663739 / 18014398509481984) + Float64 (5764607523034235 / 144115188075855872) =
     Float64 (3963167672086037 / 36028797018963968) \<and>
   Float64 (1261007895663739 / 18014398509481984) + Float64 (5764607523034235 / 144115188075855872) \<noteq>
     Float64 (7926335344172073 / 72057594037927936)"
  by code_simp

text \<open>
  Claim C5, as amended. For a valid acyclic activity set the run returns, and every row
  of the table has Slack = LS - ES in the arithmetic of the column. When the durations
  are integers, Slack is not negative.
\<close>

theorem slack_nonnegative:
  fixes rows :: "'n::{zero,plus,minus,linorder} csv_row list" and irows :: "int csv_row list"
  shows "(valid_input rows \<longrightarrow>
            (\<exists>out. run_cpm rows = Some (Inr out) \<and> map Task out = map fst rows \<and>
               (\<forall>row\<in>set out. Slack row = LS row - ES row))) \<and>
         (valid_input irows \<longrightarrow>
            (\<exists>out. run_cpm irows = Some (Inr out) \<and> map Task out = map fst irows \<and>
               (\<forall>row\<in>set out. Slack row = LS row - ES row \<and> 0 \<le> Slack row)))"
proof (intro conjI impI)
  assume "valid_input rows"
  from run_cpm_valid_table[OF this] obtain out ef ls where
    o: "run_cpm rows = Some (Inr out)" "cpm_table out ef ls"
    "map Task out = map fst rows" by blast
  from o(2) have "\<forall>row\<in>set out. Slack row = LS row - ES row"
    by (auto simp: cpm_table_def)
  with o show "\<exists>out. run_cpm rows = Some (Inr out) \<and> map Task out = map fst rows \<and>
               (\<forall>row\<in>set out. Slack row = LS row - ES row)" by blast
next
  assume "valid_input irows"
  from run_cpm_valid_table[OF this] obtain out ef ls where
    o: "run_cpm irows = Some (Inr out)" "cpm_table out ef ls" "successors_ok out"
    "acyclic_preds out" "map Task out = map fst irows" by blast
  have "Slack row = LS row - ES row \<and> 0 \<le> Slack row" if "row \<in> set out" for row
    using table_slack_nonneg[OF o(2,3,4) that] o(2) that by (auto simp: cpm_table_def)
  with o show "\<exists>out. run_cpm irows = Some (Inr out) \<and> map Task out = map fst irows \<and>
               (\<forall>row\<in>set out. Slack row = LS row - ES row \<and> 0 \<le> Slack row)" by blast
qed

theorem slack_nonnegative_witness:
  "valid_input tenths \<and>
   (\<exists>out. run_cpm tenths = Some (Inr out) \<and> map Task out = map fst tenths \<and>
      (\<forall>row\<in>set out. Slack row = LS row - ES row)) \<and>
   valid_input branches \<and>
   (\<exists>out. run_cpm branches = Some (Inr out) \<and> map Task out = map fst branches \<and>
      (\<forall>row\<in>set out. Slack row = LS row - ES row \<and> 0 \<le> Slack row))"
proof -
  have h1: "valid_input tenths" by code_simp
  have h2: "valid_input branches" by code_simp
  from slack_nonnegative[of tenths branches] h1 h2 show ?thesis by blast
qed

text \<open>
  Claim C5 as stated fails on fractional durations. The rows A (0.1) and B (0.4, after
  A) are a valid acyclic input. EF of B is 0.1 + 0.4 = 0.5, the project finish; LS of B
  is 0.5 - 0.4, the binary64 number 0.09999999999999998, which is below ES of B, 0.1.
  Both rows get the slack \<open>- 2 ^ -55\<close>.
\<close>

theorem slack_negative_float_counterexample:
  "valid_input [(''A'', f64 (1 / 10), ''''), (''B'', f64 (4 / 10), ''A'')] \<and>
   run_cpm [(''A'', f64 (1 / 10), ''''), (''B'', f64 (4 / 10), ''A'')] =
     Some (Inr
       [\<lparr>Task = ''A'', Duration = Float64 (3602879701896397 / 36028797018963968),
          Predecessors = [], ES = Float64 0,
          EF = Float64 (3602879701896397 / 36028797018963968),
          LS = Float64 (- (1 / 36028797018963968)),
          LF = Float64 (900719925474099 / 9007199254740992),
          Slack = Float64 (- (1 / 36028797018963968)), Critical = False,
          Successors = [''B'']\<rparr>,
        \<lparr>Task = ''B'', Duration = Float64 (3602879701896397 / 9007199254740992),
          Predecessors = [''A''], ES = Float64 (3602879701896397 / 36028797018963968),
          EF = Float64 (1 / 2),
          LS = Float64 (900719925474099 / 9007199254740992),
          LF = Float64 (1 / 2),
          Slack = Float64 (- (1 / 36028797018963968)), Critical = False,
          Successors = []\<rparr>]) \<and>
   Float64 (- (1 / 36028797018963968)) < 0"
  by code_simp






text \<open>
  Claim C9, as amended. For a valid acyclic activity set the run returns a table in
  which, for every row, Slack is LS - ES in the arithmetic of the column and Critical
  holds exactly when Slack equals 0 in that type. When the durations are integers,
  Slack also equals LF - EF.
\<close>

theorem slack_forms_agree:
  fixes rows :: "'n::{zero,plus,minus,linorder} csv_row list" and irows :: "int csv_row list"
  shows "(valid_input rows \<longrightarrow>
            (\<exists>out. run_cpm rows = Some (Inr out) \<and> map Task out = map fst rows \<and>
               (\<forall>row\<in>set out. Slack row = LS row - ES row \<and>
                                (Critical row \<longleftrightarrow> Slack row = 0)))) \<and>
         (valid_input irows \<longrightarrow>
            (\<exists>out. run_cpm irows = Some (Inr out) \<and> map Task out = map fst irows \<and>
               (\<forall>row\<in>set out. Slack row = LS row - ES row \<and> Slack row = LF row - EF row \<and>
                                (Critical row \<longleftrightarrow> Slack row = 0))))"
proof (intro conjI impI)
  assume "valid_input rows"
  from run_cpm_valid_table[OF this] obtain out ef ls where
    o: "run_cpm rows = Some (Inr out)" "cpm_table out ef ls"
    "map Task out = map fst rows" by blast
  from o(2) have "\<forall>row\<in>set out. Slack row = LS row - ES row \<and>
                                (Critical row \<longleftrightarrow> Slack row = 0)"
    by (auto simp: cpm_table_def)
  with o show "\<exists>out. run_cpm rows = Some (Inr out) \<and> map Task out = map fst rows \<and>
               (\<forall>row\<in>set out. Slack row = LS row - ES row \<and>
                                (Critical row \<longleftrightarrow> Slack row = 0))" by blast
next
  assume "valid_input irows"
  from run_cpm_valid_table[OF this] obtain out ef ls where
    o: "run_cpm irows = Some (Inr out)" "cpm_table out ef ls"
    "map Task out = map fst irows" by blast
  from o(2) have "\<forall>row\<in>set out. Slack row = LS row - ES row \<and> Slack row = LF row - EF row \<and>
                            (Critical row \<longleftrightarrow> Slack row = 0)"
    by (auto simp: cpm_table_def)
  with o show "\<exists>out. run_cpm irows = Some (Inr out) \<and> map Task out = map fst irows \<and>
               (\<forall>row\<in>set out. Slack row = LS row - ES row \<and> Slack row = LF row - EF row \<and>
                                (Critical row \<longleftrightarrow> Slack row = 0))" by blast
qed

theorem slack_forms_agree_witness:
  "valid_input tenths \<and>
   (\<exists>out. run_cpm tenths = Some (Inr out) \<and> map Task out = map fst tenths \<and>
      (\<forall>row\<in>set out. Slack row = LS row - ES row \<and> (Critical row \<longleftrightarrow> Slack row = 0))) \<and>
   valid_input branches \<and>
   (\<exists>out. run_cpm branches = Some (Inr out) \<and> map Task out = map fst branches \<and>
      (\<forall>row\<in>set out. Slack row = LS row - ES row \<and> Slack row = LF row - EF row \<and>
                       (Critical row \<longleftrightarrow> Slack row = 0)))"
proof -
  have h1: "valid_input tenths" by code_simp
  have h2: "valid_input branches" by code_simp
  from slack_forms_agree[of tenths branches] h1 h2 show ?thesis by blast
qed

text \<open>
  Claim C9 as stated fails on fractional durations. For the rows A (0.1) and B (0.2,
  after A), row B has LS - ES = \<open>2 ^ -55\<close>, which is its Slack, while LF and EF are both
  the project finish 0.30000000000000004, so LF - EF is 0.
\<close>

theorem slack_forms_differ_float_counterexample:
  "valid_input [(''A'', f64 (1 / 10), ''''), (''B'', f64 (2 / 10), ''A'')] \<and>
   run_cpm [(''A'', f64 (1 / 10), ''''), (''B'', f64 (2 / 10), ''A'')] =
     Some (Inr
       [\<lparr>Task = ''A'', Duration = Float64 (3602879701896397 / 36028797018963968),
          Predecessors = [], ES = Float64 0,
          EF = Float64 (3602879701896397 / 36028797018963968),
          LS = Float64 (1 / 36028797018963968),
          LF = Float64 (1801439850948199 / 18014398509481984),
          Slack = Float64 (1 / 36028797018963968), Critical = False,
          Successors = [''B'']\<rparr>,
        \<lparr>Task = ''B'', Duration = Float64 (3602879701896397 / 18014398509481984),
          Predecessors = [''A''], ES = Float64 (3602879701896397 / 36028797018963968),
          EF = Float64 (1351079888211149 / 4503599627370496),
          LS = Float64 (1801439850948199 / 18014398509481984),
          LF = Float64 (1351079888211149 / 4503599627370496),
          Slack = Float64 (1 / 36028797018963968), Critical = False,
          Successors = []\<rparr>]) \<and>
   Float64 (1801439850948199 / 18014398509481984) - Float64 (3602879701896397 / 36028797018963968) = Float64 (1 / 36028797018963968) \<and>
   Float64 (1351079888211149 / 4503599627370496) - Float64 (1351079888211149 / 4503599627370496) = 0 \<and>
   Float64 (1801439850948199 / 18014398509481984) - Float64 (3602879701896397 / 36028797018963968) \<noteq>
     Float64 (1351079888211149 / 4503599627370496) - Float64 (1351079888211149 / 4503599627370496)"
  by code_simp

subsection \<open>Rows that share a task name\<close>

lemma stuck_succ_not_ready:
  "stuck_succ S rem ls \<Longrightarrow> ir \<in> S \<Longrightarrow> \<not> all_in ls (Successors (snd ir))"
  unfolding stuck_succ_def all_in_def list_all_iff by blast

lemma stuck_succ_step:
  assumes st: "stuck_succ S rem ls" and ir: "ir \<in> set rem"
    and rdy: "all_in ls (Successors (snd ir))"
  shows "stuck_succ S (drop_label (fst ir) rem) (ls(Task (snd ir) \<mapsto> v))"
proof -
  from st have d: "distinct (map fst rem)" by (simp add: stuck_succ_def)
  have notin: "ir \<notin> S" using stuck_succ_not_ready[OF st] rdy by blast
  have s: "set (drop_label (fst ir) rem) = set rem - {ir}" by (rule set_drop_label[OF d ir])
  show ?thesis
    unfolding stuck_succ_def s
  proof (intro conjI ballI)
    show "S \<noteq> {}" using st by (simp add: stuck_succ_def)
    show "S \<subseteq> set rem - {ir}" using st notin by (auto simp: stuck_succ_def)
    show "distinct (map fst (drop_label (fst ir) rem))" by (rule distinct_drop_label[OF d])
  next
    fix jr assume jr: "jr \<in> S"
    with st obtain p where p: "p \<in> set (Successors (snd jr))" "ls p = None"
      "\<forall>kr\<in>set rem. Task (snd kr) = p \<longrightarrow> kr \<in> S"
      unfolding stuck_succ_def by blast
    from p(3) ir notin have "Task (snd ir) \<noteq> p" by blast
    with p show "\<exists>p\<in>set (Successors (snd jr)).
        (ls(Task (snd ir) \<mapsto> v)) p = None \<and> (\<forall>kr\<in>set rem - {ir}. Task (snd kr) = p \<longrightarrow> kr \<in> S)"
      by (intro bexI[of _ p]) auto
  qed
qed

lemma ls_lf_loop_Some_not_stuck:
  assumes "ls_lf_loop rem0 pf0 ls0 lf0 = Some y0"
  shows "\<not> stuck_succ S rem0 ls0"
proof (rule ls_lf_loop.raw_induct[where P = "\<lambda>rem pf ls lf y. \<not> stuck_succ S rem ls", OF _ assms],
    goal_cases)
  case (1 loop rem pf ls lf y)
  note IH = 1(1) and body = 1(2)
  show ?case
  proof
    assume st: "stuck_succ S rem ls"
    then have ne: "rem \<noteq> []" by (auto simp: stuck_succ_def)
    show False
    proof (cases "find (\<lambda>ir. all_in ls (Successors (snd ir))) rem")
      case None
      with body ne have "loop rem pf ls lf = Some y" by simp
      from IH[OF this] st show False by blast
    next
      case (Some ir)
      from find_SomeD[OF Some] have ir: "ir \<in> set rem" "all_in ls (Successors (snd ir))"
        by simp_all
      from body ne Some late_finish_ready[OF ir(2), of pf]
      have "loop (drop_label (fst ir) rem) pf
              (ls(Task (snd ir) \<mapsto> lf_val ls pf (snd ir) - Duration (snd ir)))
              (lf(Task (snd ir) \<mapsto> lf_val ls pf (snd ir))) = Some y"
        by simp
      from IH[OF this] stuck_succ_step[OF st ir] show False by blast
    qed
  qed
qed

lemma ls_lf_loop_stuck: "stuck_succ S rem ls \<Longrightarrow> ls_lf_loop rem pf ls lf = None"
  using ls_lf_loop_Some_not_stuck by (cases "ls_lf_loop rem pf ls lf") blast+

lemma run_cpm_returns:
  assumes r: "resolvable (load_and_prepare_data rows)"
    and a: "acyclic_preds (load_and_prepare_data rows)"
  shows "\<exists>out. run_cpm rows = Some (Inr out)"
proof -
  let ?df = "load_and_prepare_data rows"
  from es_ef_loop_returns[OF r a] obtain es ef where
    "es_ef_loop (enumerate 0 ?df) Map.empty Map.empty = Some (Inr (es, ef))" by blast
  then have "calculate_es_ef ?df =
      Some (Inr (map (\<lambda>row. row\<lparr>ES := map_col es row, EF := map_col ef row\<rparr>) ?df))"
    by (simp add: calculate_es_ef_def)
  then obtain f df1 where c1: "calculate_es_ef ?df = Some (Inr df1)"
    and df1: "df1 = map f ?df"
    and f: "\<And>row. Task (f row) = Task row" "\<And>row. Predecessors (f row) = Predecessors row"
      "\<And>row. Successors (f row) = Successors row"
    by (rule that[where f = "\<lambda>row. row\<lparr>ES := map_col es row, EF := map_col ef row\<rparr>"])
       simp_all
  have pe: "pred_edges df1 = pred_edges ?df"
    unfolding df1 by (rule pred_edges_map[OF f(1,2)])
  have s1: "successors_ok df1"
    unfolding df1 using load_successors_ok[of rows] successors_ok_map[of f ?df, OF f] by simp
  have a1: "acyclic_preds df1" using a by (simp add: acyclic_preds_def pe)
  from ls_lf_loop_returns[OF s1 a1, of "col_max (map EF df1)" "seed_lf df1 (col_max (map EF df1))"]
  obtain df2 where "calculate_ls_lf df1 = Some (Inr df2)"
    by (auto simp: calculate_ls_lf_def Let_def)
  with c1 show ?thesis by (simp add: run_cpm_def)
qed

lemma run_cpm_dicts:
  assumes "run_cpm rows = Some (Inr out)"
  shows "\<exists>df1 es ef ls lf.
           es_ef_loop (enumerate 0 (load_and_prepare_data rows)) Map.empty Map.empty =
             Some (Inr (es, ef)) \<and>
           calculate_es_ef (load_and_prepare_data rows) = Some (Inr df1) \<and>
           ls_lf_loop (enumerate 0 df1) (col_max (map EF df1)) Map.empty
               (seed_lf df1 (col_max (map EF df1))) = Some (Inr (ls, lf)) \<and>
           (\<forall>row\<in>set out. es (Task row) = Some (ES row) \<and> ef (Task row) = Some (EF row) \<and>
                            ls (Task row) = Some (LS row) \<and> lf (Task row) = Some (LF row))"
proof -
  let ?df = "load_and_prepare_data rows"
  from assms obtain df1 df2 where
    c: "calculate_es_ef ?df = Some (Inr df1)" "calculate_ls_lf df1 = Some (Inr df2)"
    "out = calculate_slack df2"
    by (rule run_cpm_SomeD)
  from c(1) obtain es ef where
    l1: "es_ef_loop (enumerate 0 ?df) Map.empty Map.empty = Some (Inr (es, ef))"
    and d1: "df1 = map (\<lambda>row. row\<lparr>ES := map_col es row, EF := map_col ef row\<rparr>) ?df"
    by (auto simp: calculate_es_ef_def split: option.splits sum.splits)
  let ?pf = "col_max (map EF df1)"
  from c(2) obtain ls lf where
    l2: "ls_lf_loop (enumerate 0 df1) ?pf Map.empty (seed_lf df1 ?pf) = Some (Inr (ls, lf))"
    and d2: "df2 = map (\<lambda>row. row\<lparr>LF := map_col lf row, LS := map_col ls row\<rparr>) df1"
    by (auto simp: calculate_ls_lf_def Let_def split: option.splits sum.splits)
  have k1: "es (Task row) = Some (map_col es row) \<and> ef (Task row) = Some (map_col ef row)"
    if "row \<in> set ?df" for row
    using es_ef_loop_keys[OF l1 that] by (auto simp: map_col_def)
  have k2: "ls (Task row) = Some (map_col ls row) \<and> lf (Task row) = Some (map_col lf row)"
    if "row \<in> set df1" for row
    using ls_lf_loop_keys[OF l2 that] by (auto simp: map_col_def)
  have "es (Task row) = Some (ES row) \<and> ef (Task row) = Some (EF row) \<and>
        ls (Task row) = Some (LS row) \<and> lf (Task row) = Some (LF row)"
    if "row \<in> set out" for row
  proof -
    from that c(3) d2 obtain r1 where r1: "r1 \<in> set df1"
      "row = r1\<lparr>LF := map_col lf r1, LS := map_col ls r1,
                Slack := map_col ls r1 - ES r1, Critical := (map_col ls r1 - ES r1 = 0)\<rparr>"
      by (auto simp: calculate_slack_def)
    from r1(1) d1 obtain r0 where r0: "r0 \<in> set ?df"
      "r1 = r0\<lparr>ES := map_col es r0, EF := map_col ef r0\<rparr>" by auto
    from k1[OF r0(1)] k2[OF r1(1)] r1(2) r0(2) show ?thesis by (simp add: map_col_def)
  qed
  with l1 c(1) l2 show ?thesis by blast
qed

text \<open>
  Claim C10, as amended. Rows that share a task name raise no error. When every listed
  predecessor is the task of some row and the predecessor relation among the task names
  is acyclic, both passes terminate, and each row of the table carries the values that
  the name-keyed dictionaries hold under its task when the loops end; rows with the
  same task therefore carry the same ES, EF, LS and LF.
\<close>

theorem duplicate_rows_share_values:
  assumes "\<not> distinct (map fst rows)"
    and "resolvable (load_and_prepare_data rows)"
    and "acyclic_preds (load_and_prepare_data rows)"
  shows "\<exists>out df1 es ef ls lf.
           run_cpm rows = Some (Inr out) \<and> map Task out = map fst rows \<and>
           es_ef_loop (enumerate 0 (load_and_prepare_data rows)) Map.empty Map.empty =
             Some (Inr (es, ef)) \<and>
           calculate_es_ef (load_and_prepare_data rows) = Some (Inr df1) \<and>
           ls_lf_loop (enumerate 0 df1) (col_max (map EF df1)) Map.empty
               (seed_lf df1 (col_max (map EF df1))) = Some (Inr (ls, lf)) \<and>
           (\<forall>row\<in>set out. es (Task row) = Some (ES row) \<and> ef (Task row) = Some (EF row) \<and>
                            ls (Task row) = Some (LS row) \<and> lf (Task row) = Some (LF row)) \<and>
           (\<forall>r1\<in>set out. \<forall>r2\<in>set out. Task r1 = Task r2 \<longrightarrow>
              ES r1 = ES r2 \<and> EF r1 = EF r2 \<and> LS r1 = LS r2 \<and> LF r1 = LF r2)"
proof -
  from run_cpm_returns[OF assms(2,3)] obtain out where o: "run_cpm rows = Some (Inr out)" ..
  from run_cpm_dicts[OF o] obtain df1 es ef ls lf where
    d: "es_ef_loop (enumerate 0 (load_and_prepare_data rows)) Map.empty Map.empty =
             Some (Inr (es, ef))"
    "calculate_es_ef (load_and_prepare_data rows) = Some (Inr df1)"
    "ls_lf_loop (enumerate 0 df1) (col_max (map EF df1)) Map.empty
               (seed_lf df1 (col_max (map EF df1))) = Some (Inr (ls, lf))"
    and v: "\<forall>row\<in>set out. es (Task row) = Some (ES row) \<and> ef (Task row) = Some (EF row) \<and>
                            ls (Task row) = Some (LS row) \<and> lf (Task row) = Some (LF row)"
    by blast
  have "ES r1 = ES r2 \<and> EF r1 = EF r2 \<and> LS r1 = LS r2 \<and> LF r1 = LF r2"
    if "r1 \<in> set out" "r2 \<in> set out" "Task r1 = Task r2" for r1 r2
  proof -
    from v that(1) have a: "es (Task r1) = Some (ES r1)" "ef (Task r1) = Some (EF r1)"
      "ls (Task r1) = Some (LS r1)" "lf (Task r1) = Some (LF r1)" by blast+
    from v that(2) have b: "es (Task r2) = Some (ES r2)" "ef (Task r2) = Some (EF r2)"
      "ls (Task r2) = Some (LS r2)" "lf (Task r2) = Some (LF r2)" by blast+
    from a b that(3) show ?thesis by simp
  qed
  with o run_cpm_Task[OF o] d v show ?thesis by blast
qed

theorem duplicate_rows_share_values_witness:
  "\<not> distinct (map fst twice_a) \<and>
   resolvable (load_and_prepare_data twice_a) \<and>
   acyclic_preds (load_and_prepare_data twice_a) \<and>
   (\<exists>out df1 es ef ls lf.
           run_cpm twice_a = Some (Inr out) \<and> map Task out = map fst twice_a \<and>
           es_ef_loop (enumerate 0 (load_and_prepare_data twice_a)) Map.empty Map.empty =
             Some (Inr (es, ef)) \<and>
           calculate_es_ef (load_and_prepare_data twice_a) = Some (Inr df1) \<and>
           ls_lf_loop (enumerate 0 df1) (col_max (map EF df1)) Map.empty
               (seed_lf df1 (col_max (map EF df1))) = Some (Inr (ls, lf)) \<and>
           (\<forall>row\<in>set out. es (Task row) = Some (ES row) \<and> ef (Task row) = Some (EF row) \<and>
                            ls (Task row) = Some (LS row) \<and> lf (Task row) = Some (LF row)) \<and>
           (\<forall>r1\<in>set out. \<forall>r2\<in>set out. Task r1 = Task r2 \<longrightarrow>
              ES r1 = ES r2 \<and> EF r1 = EF r2 \<and> LS r1 = LS r2 \<and> LF r1 = LF r2))"
proof -
  have h1: "\<not> distinct (map fst twice_a)" by (simp add: twice_a_def)
  have h2: "resolvable (load_and_prepare_data twice_a)" by code_simp
  have h3: "acyclic_preds (load_and_prepare_data twice_a)" by code_simp
  from duplicate_rows_share_values[OF h1 h2 h3] h1 h2 h3 show ?thesis by simp
qed

text \<open>
  Claim C10 as stated fails: rows sharing a task name do not make the passes terminate
  by themselves. For two rows named A, the second listing A as its predecessor, the
  forward pass returns (both rows get ES 1 and EF 3, the values stored last under A),
  but every row named A then waits for a successor named A, and the backward pass
  does not return.
\<close>

theorem duplicate_rows_counterexample:
  "calculate_es_ef (load_and_prepare_data [(''A'', 1 :: int, ''''), (''A'', 2, ''A'')]) =
     Some (Inr
       [\<lparr>Task = ''A'', Duration = 1, Predecessors = [], ES = 1, EF = 3, LS = 0, LF = 0,
          Slack = 0, Critical = False, Successors = [''A'']\<rparr>,
        \<lparr>Task = ''A'', Duration = 2, Predecessors = [''A''], ES = 1, EF = 3, LS = 0, LF = 0,
          Slack = 0, Critical = False, Successors = [''A'']\<rparr>]) \<and>
   calculate_ls_lf
       [\<lparr>Task = ''A'', Duration = 1 :: int, Predecessors = [], ES = 1, EF = 3, LS = 0, LF = 0,
          Slack = 0, Critical = False, Successors = [''A'']\<rparr>,
        \<lparr>Task = ''A'', Duration = 2, Predecessors = [''A''], ES = 1, EF = 3, LS = 0, LF = 0,
          Slack = 0, Critical = False, Successors = [''A'']\<rparr>] = None \<and>
   run_cpm [(''A'', 1 :: int, ''''), (''A'', 2, ''A'')] = None"
proof -
  let ?df1 = "[\<lparr>Task = ''A'', Duration = 1 :: int, Predecessors = [], ES = 1, EF = 3, LS = 0, LF = 0,
          Slack = 0, Critical = False, Successors = [''A'']\<rparr>,
        \<lparr>Task = ''A'', Duration = 2, Predecessors = [''A''], ES = 1, EF = 3, LS = 0, LF = 0,
          Slack = 0, Critical = False, Successors = [''A'']\<rparr>]"
  have f: "calculate_es_ef (load_and_prepare_data [(''A'', 1 :: int, ''''), (''A'', 2, ''A'')]) =
     Some (Inr ?df1)"
    by code_simp
  have "stuck_succ (set (enumerate 0 ?df1)) (enumerate 0 ?df1) Map.empty"
    by (simp add: stuck_succ_def)
  then have b: "calculate_ls_lf ?df1 = None"
    by (simp only: calculate_ls_lf_def Let_def ls_lf_loop_stuck option.case)
  from f b show ?thesis by (simp add: run_cpm_def)
qed

end
